theory Spec2Isabelle
  imports Main "HOL-Library.Word"
begin

unbundle bit_operations_syntax

section \<open>Virtual instrumentation of the Mali hardware counters (mali_kbase_vinstr.c)\<close>

text \<open>
  A shallow embedding of \<^verbatim>\<open>drivers/gpu/arm/t8xx/r7p0/mali_kbase_vinstr.c\<close>.

  \<^item> \<^verbatim>\<open>u32\<close> is \<open>32 word\<close>; \<^verbatim>\<open>size_t\<close> and \<^verbatim>\<open>u64\<close> values are \<open>nat\<close>; pointers are
    \<open>nat\<close> with \<open>NULL = 0\<close>.
  \<^item> A counter buffer (the mapped hardware dump buffer, a client's accumulation buffer)
    is a list of \<^verbatim>\<open>u32\<close>. Every access of the file to these buffers is a 4-byte aligned
    \<^verbatim>\<open>u32\<close> load or store, or a \<^verbatim>\<open>memcpy\<close> of 16 bytes at a multiple of 256 bytes, so the
    byte at offset \<open>b\<close> belongs to the word of index \<open>b div 4\<close>.
  \<^item> The intrusive client list is a list of (pointer, struct) pairs, head first.
  \<^item> Functions of the driver that are not part of the file (context creation, memory
    allocation, the hardware counter back end, \<^verbatim>\<open>copy_to_user\<close>) are parameters: their
    results are read from an environment record, and the calls that took effect are
    logged in a trace, most recent first.
\<close>

subsection \<open>Constants\<close>

type_synonym u32 = "32 word"

definition NULL :: nat where "NULL = 0"

definition NR_CNT_BLOCKS_PER_GROUP :: nat where "NR_CNT_BLOCKS_PER_GROUP = 8"
definition NR_CNT_PER_BLOCK :: nat where "NR_CNT_PER_BLOCK = 64"
definition NR_BYTES_PER_CNT :: nat where "NR_BYTES_PER_CNT = 4"
definition NR_BYTES_PER_HDR :: nat where "NR_BYTES_PER_HDR = 16"
definition PRFCNT_EN_MASK_OFFSET :: nat where "PRFCNT_EN_MASK_OFFSET = 8"

definition U32_MAX :: u32 where "U32_MAX = 0xFFFFFFFF"

definition EINVAL :: int where "EINVAL = 22"
definition EFAULT :: int where "EFAULT = 14"
definition ENOMEM :: int where "ENOMEM = 12"

text \<open>\<^verbatim>\<open>sizeof(u32)\<close>, the unit of the buffers of the model.\<close>

definition sizeof_u32 :: nat where "sizeof_u32 = 4"

subsection \<open>Data\<close>

text \<open>\<^verbatim>\<open>u32 bitmap[4]\<close>, indexed by \<^verbatim>\<open>JM_HWCNT_BM\<close>, \<^verbatim>\<open>TILER_HWCNT_BM\<close>,
  \<^verbatim>\<open>SHADER_HWCNT_BM\<close> and \<^verbatim>\<open>MMU_L2_HWCNT_BM\<close>: one field for each index.\<close>

record bitmap4 =
  JM_HWCNT_BM :: u32
  TILER_HWCNT_BM :: u32
  SHADER_HWCNT_BM :: u32
  MMU_L2_HWCNT_BM :: u32

text \<open>What the file reads of \<^verbatim>\<open>struct kbase_device\<close>. \<open>MALI_SEC_HWCNT\<close> is the
  preprocessor symbol of that name: whether the platform-specific code is compiled in.\<close>

record kbase_device =
  BASE_HW_FEATURE_V4 :: bool
  num_core_groups :: u32
  num_l2_slices :: u32
  num_cores :: u32
  MALI_SEC_HWCNT :: bool

text \<open>\<^verbatim>\<open>struct kbase_vinstr_client\<close>. The accumulation buffer is the object
  \<^verbatim>\<open>accum_buffer\<close> points to; it belongs to this client alone.\<close>

record kbase_vinstr_client =
  cli_kernel :: bool
  cli_pending :: bool
  cli_dump_buffer :: nat
  cli_dump_size :: nat
  cli_bitmap :: bitmap4
  cli_accum_buffer :: "u32 list"

text \<open>Calls into the rest of the driver that took effect.\<close>

datatype hw_event =
    CreateContext | DestroyContext
  | MemAlloc | MemFree | Vmap | Vunmap
  | HwcntEnable bitmap4 | HwcntDisable
  | HwcntRequestDump | HwcntWaitForDump | HwcntClear

text \<open>\<^verbatim>\<open>struct kbase_vinstr_context\<close>. \<open>ctx_dump_mem\<close> is the content of the mapping at
  \<^verbatim>\<open>cpu_va\<close>; \<open>ctx_trace\<close> is the log of external calls.\<close>

record kbase_vinstr_context =
  ctx_kbdev :: kbase_device
  ctx_kctx :: nat
  ctx_gpu_va :: nat
  ctx_cpu_va :: nat
  ctx_dump_mem :: "u32 list"
  ctx_dump_size :: nat
  ctx_bitmap :: bitmap4
  ctx_reprogram :: bool
  ctx_nclients :: u32
  ctx_clients :: "(nat \<times> kbase_vinstr_client) list"
  ctx_trace :: "hw_event list"

subsection \<open>Enabling and disabling the counters\<close>

text \<open>\<^verbatim>\<open>kbase_instr_hwcnt_enable\<close> returns 0 or a negative errno value; the environment
  gives the errno (0 for success).\<close>

definition enable_hwcnt :: "nat \<Rightarrow> kbase_vinstr_context \<Rightarrow> int \<times> kbase_vinstr_context" where
  "enable_hwcnt errno ctx =
     (if errno = 0
      then (0, ctx\<lparr>ctx_trace := HwcntEnable (ctx_bitmap ctx) # ctx_trace ctx\<rparr>)
      else (- int errno, ctx))"

definition disable_hwcnt :: "kbase_vinstr_context \<Rightarrow> kbase_vinstr_context" where
  "disable_hwcnt ctx = ctx\<lparr>ctx_trace := HwcntDisable # ctx_trace ctx\<rparr>"

definition reprogram_hwcnt :: "nat \<Rightarrow> kbase_vinstr_context \<Rightarrow> int \<times> kbase_vinstr_context" where
  "reprogram_hwcnt errno ctx = enable_hwcnt errno (disable_hwcnt ctx)"

subsection \<open>Bitmaps\<close>

definition hwcnt_bitmap_set :: "bitmap4 \<Rightarrow> bitmap4 \<Rightarrow> bitmap4" where
  "hwcnt_bitmap_set dst src =
     dst\<lparr>JM_HWCNT_BM := JM_HWCNT_BM src,
         TILER_HWCNT_BM := TILER_HWCNT_BM src,
         SHADER_HWCNT_BM := SHADER_HWCNT_BM src,
         MMU_L2_HWCNT_BM := MMU_L2_HWCNT_BM src\<rparr>"

definition hwcnt_bitmap_union :: "bitmap4 \<Rightarrow> bitmap4 \<Rightarrow> bitmap4" where
  "hwcnt_bitmap_union dst src =
     dst\<lparr>JM_HWCNT_BM := JM_HWCNT_BM dst OR JM_HWCNT_BM src,
         TILER_HWCNT_BM := TILER_HWCNT_BM dst OR TILER_HWCNT_BM src,
         SHADER_HWCNT_BM := SHADER_HWCNT_BM dst OR SHADER_HWCNT_BM src,
         MMU_L2_HWCNT_BM := MMU_L2_HWCNT_BM dst OR MMU_L2_HWCNT_BM src\<rparr>"

definition zerobitmap :: bitmap4 where
  "zerobitmap = \<lparr>JM_HWCNT_BM = 0, TILER_HWCNT_BM = 0, SHADER_HWCNT_BM = 0, MMU_L2_HWCNT_BM = 0\<rparr>"

subsection \<open>The size of a dump\<close>

text \<open>The operands are \<^verbatim>\<open>u32\<close> locals and \<^verbatim>\<open>int\<close> constants, so the products are
  computed in 32-bit unsigned arithmetic and then widened to \<^verbatim>\<open>size_t\<close>. The device
  is read through \<^verbatim>\<open>ctx->kctx->kbdev\<close>, the device \<^verbatim>\<open>ctx->kbdev\<close> the context was
  created on.\<close>

definition kbase_vinstr_dump_size :: "kbase_vinstr_context \<Rightarrow> nat" where
  "kbase_vinstr_dump_size ctx =
     (let kbdev = ctx_kbdev ctx in
      if BASE_HW_FEATURE_V4 kbdev then
        (let nr_cg = num_core_groups kbdev in
         unat (nr_cg * of_nat NR_CNT_BLOCKS_PER_GROUP * of_nat NR_CNT_PER_BLOCK
                 * of_nat NR_BYTES_PER_CNT))
      else
        (let nr_l2 = num_l2_slices kbdev; nr_sc = num_cores kbdev in
         unat ((2 + nr_l2 + nr_sc) * of_nat NR_CNT_PER_BLOCK * of_nat NR_BYTES_PER_CNT)))"

subsection \<open>Accumulating a dump\<close>

definition sat_add_u32 :: "u32 \<Rightarrow> u32 \<Rightarrow> u32" where
  "sat_add_u32 d s = (if U32_MAX - d < s then U32_MAX else d + s)"

text \<open>The inner loop of \<^verbatim>\<open>accum_dump_buffer\<close>: \<open>n\<close> counters are left, \<open>d\<close> and \<open>s\<close> are
  the positions of the two pointers in their buffers, in words.\<close>

fun accum_counters :: "nat \<Rightarrow> nat \<Rightarrow> nat \<Rightarrow> u32 list \<Rightarrow> u32 list \<Rightarrow> u32 list" where
  "accum_counters 0 d s dst src = dst"
| "accum_counters (Suc n) d s dst src =
     accum_counters n (d + 1) (s + 1) (dst[d := sat_add_u32 (dst ! d) (src ! s)]) src"

text \<open>The outer loop, over the byte offset \<open>i\<close> of the block.\<close>

function accum_blocks :: "nat \<Rightarrow> nat \<Rightarrow> nat \<Rightarrow> nat \<Rightarrow> u32 list \<Rightarrow> u32 list \<Rightarrow> u32 list" where
  "accum_blocks i dump_size d s dst src =
     (let block_size = NR_CNT_PER_BLOCK * NR_BYTES_PER_CNT in
      if i < dump_size then
        (let d' = d + NR_BYTES_PER_HDR div sizeof_u32;
             s' = s + NR_BYTES_PER_HDR div sizeof_u32;
             n = (block_size - NR_BYTES_PER_HDR) div sizeof_u32
         in accum_blocks (i + block_size) dump_size (d' + n) (s' + n)
              (accum_counters n d' s' dst src) src)
      else dst)"
  by pat_completeness auto
termination
  by (relation "measure (\<lambda>(i, dump_size, d, s, dst, src). dump_size - i)")
     (auto simp: NR_CNT_PER_BLOCK_def NR_BYTES_PER_CNT_def)

declare accum_blocks.simps [simp del]

definition accum_dump_buffer :: "u32 list \<Rightarrow> u32 list \<Rightarrow> nat \<Rightarrow> u32 list" where
  "accum_dump_buffer dst src dump_size = accum_blocks 0 dump_size 0 0 dst src"

subsection \<open>Copying and patching the block headers\<close>

text \<open>\<^verbatim>\<open>memcpy(&dst[off], &src[off], NR_BYTES_PER_HDR)\<close> at the byte offsets \<open>doff\<close> of
  \<open>dst\<close> and \<open>soff\<close> of \<open>src\<close>: the four words of a block header.\<close>

definition memcpy_hdr :: "u32 list \<Rightarrow> nat \<Rightarrow> u32 list \<Rightarrow> nat \<Rightarrow> u32 list" where
  "memcpy_hdr dst doff src soff =
     fold (\<lambda>j d. d[doff div sizeof_u32 + j := src ! (soff div sizeof_u32 + j)])
       [0 ..< NR_BYTES_PER_HDR div sizeof_u32] dst"

text \<open>\<^verbatim>\<open>mask = (u32 *)&dst[off + PRFCNT_EN_MASK_OFFSET]; *mask &= bm\<close>.\<close>

definition patch_en_mask :: "u32 list \<Rightarrow> nat \<Rightarrow> u32 \<Rightarrow> u32 list" where
  "patch_en_mask dst off bm =
     (let w = (off + PRFCNT_EN_MASK_OFFSET) div sizeof_u32 in dst[w := dst ! w AND bm])"

text \<open>One pass of the body of \<^verbatim>\<open>patch_dump_buffer_hdr_v4\<close>, for the core group \<open>i\<close>.\<close>

definition SC0_BASE :: nat where "SC0_BASE = 0 * NR_CNT_PER_BLOCK * NR_BYTES_PER_CNT"
definition SC1_BASE :: nat where "SC1_BASE = 1 * NR_CNT_PER_BLOCK * NR_BYTES_PER_CNT"
definition SC2_BASE :: nat where "SC2_BASE = 2 * NR_CNT_PER_BLOCK * NR_BYTES_PER_CNT"
definition SC3_BASE :: nat where "SC3_BASE = 3 * NR_CNT_PER_BLOCK * NR_BYTES_PER_CNT"
definition TILER_BASE :: nat where "TILER_BASE = 4 * NR_CNT_PER_BLOCK * NR_BYTES_PER_CNT"
definition MMU_L2_BASE :: nat where "MMU_L2_BASE = 5 * NR_CNT_PER_BLOCK * NR_BYTES_PER_CNT"
definition JM_BASE :: nat where "JM_BASE = 7 * NR_CNT_PER_BLOCK * NR_BYTES_PER_CNT"

definition patch_v4_group :: "bitmap4 \<Rightarrow> u32 list \<Rightarrow> nat \<Rightarrow> u32 list \<Rightarrow> u32 list" where
  "patch_v4_group bm src i dst =
     (let group_size = NR_CNT_BLOCKS_PER_GROUP * NR_CNT_PER_BLOCK * NR_BYTES_PER_CNT;
          group = i * group_size;
          dst = memcpy_hdr dst (group + SC0_BASE) src (group + SC0_BASE);
          dst = memcpy_hdr dst (group + SC1_BASE) src (group + SC1_BASE);
          dst = memcpy_hdr dst (group + SC2_BASE) src (group + SC2_BASE);
          dst = memcpy_hdr dst (group + SC3_BASE) src (group + SC3_BASE);
          dst = memcpy_hdr dst (group + TILER_BASE) src (group + TILER_BASE);
          dst = memcpy_hdr dst (group + MMU_L2_BASE) src (group + MMU_L2_BASE);
          dst = memcpy_hdr dst (group + JM_BASE) src (group + JM_BASE);
          dst = patch_en_mask dst (group + SC0_BASE) (SHADER_HWCNT_BM bm);
          dst = patch_en_mask dst (group + SC1_BASE) (SHADER_HWCNT_BM bm);
          dst = patch_en_mask dst (group + SC2_BASE) (SHADER_HWCNT_BM bm);
          dst = patch_en_mask dst (group + SC3_BASE) (SHADER_HWCNT_BM bm);
          dst = patch_en_mask dst (group + TILER_BASE) (TILER_HWCNT_BM bm);
          dst = patch_en_mask dst (group + MMU_L2_BASE) (MMU_L2_HWCNT_BM bm);
          dst = patch_en_mask dst (group + JM_BASE) (JM_HWCNT_BM bm)
      in dst)"

text \<open>\<^verbatim>\<open>patch_dump_buffer_hdr_v4\<close>: \<^verbatim>\<open>for (i = 0; i < nr_cg; i++)\<close>.\<close>

definition patch_dump_buffer_hdr_v4 ::
  "kbase_vinstr_context \<Rightarrow> kbase_vinstr_client \<Rightarrow> kbase_vinstr_client" where
  "patch_dump_buffer_hdr_v4 ctx cli =
     (let nr_cg = num_core_groups (ctx_kbdev ctx) in
      cli\<lparr>cli_accum_buffer :=
        fold (patch_v4_group (cli_bitmap cli) (ctx_dump_mem ctx)) [0 ..< unat nr_cg]
          (cli_accum_buffer cli)\<rparr>)"

text \<open>The statement repeated for each block of \<^verbatim>\<open>patch_dump_buffer_hdr_v5\<close>; \<open>off\<close> is
  the distance in bytes of \<^verbatim>\<open>dst\<close> and \<^verbatim>\<open>src\<close> from the start of their buffers.\<close>

definition copy_and_patch :: "u32 \<Rightarrow> u32 list \<Rightarrow> nat \<Rightarrow> u32 list \<Rightarrow> u32 list" where
  "copy_and_patch bm src off dst = patch_en_mask (memcpy_hdr dst off src off) off bm"

text \<open>\<^verbatim>\<open>for (i = 0; i < n; i++) { copy and patch; dst += block_size; src += block_size; }\<close>\<close>

fun patch_blocks_v5 :: "nat \<Rightarrow> u32 \<Rightarrow> u32 list \<Rightarrow> nat \<Rightarrow> u32 list \<Rightarrow> u32 list" where
  "patch_blocks_v5 0 bm src off dst = dst"
| "patch_blocks_v5 (Suc n) bm src off dst =
     patch_blocks_v5 n bm src (off + NR_CNT_PER_BLOCK * NR_BYTES_PER_CNT)
       (copy_and_patch bm src off dst)"

definition patch_dump_buffer_hdr_v5 ::
  "kbase_vinstr_context \<Rightarrow> kbase_vinstr_client \<Rightarrow> kbase_vinstr_client" where
  "patch_dump_buffer_hdr_v5 ctx cli =
     (let kbdev = ctx_kbdev ctx;
          bm = cli_bitmap cli;
          src = ctx_dump_mem ctx;
          block_size = NR_CNT_PER_BLOCK * NR_BYTES_PER_CNT;
          dst = copy_and_patch (JM_HWCNT_BM bm) src 0 (cli_accum_buffer cli);
          off = block_size;
          dst = copy_and_patch (TILER_HWCNT_BM bm) src off dst;
          off = off + block_size;
          nr_l2 = num_l2_slices kbdev;
          dst = patch_blocks_v5 (unat nr_l2) (MMU_L2_HWCNT_BM bm) src off dst;
          off = off + unat nr_l2 * block_size;
          nr_sc = num_cores kbdev;
          dst = patch_blocks_v5 (unat nr_sc) (SHADER_HWCNT_BM bm) src off dst
      in cli\<lparr>cli_accum_buffer := dst\<rparr>)"

subsection \<open>Accumulating into the clients\<close>

text \<open>The body of the loop of \<^verbatim>\<open>accum_clients\<close>.\<close>

definition accum_client :: "kbase_vinstr_context \<Rightarrow> kbase_vinstr_client \<Rightarrow> kbase_vinstr_client" where
  "accum_client ctx iter =
     (if cli_pending iter then iter
      else
        (let iter = (if BASE_HW_FEATURE_V4 (ctx_kbdev ctx)
                     then patch_dump_buffer_hdr_v4 ctx iter
                     else patch_dump_buffer_hdr_v5 ctx iter)
         in iter\<lparr>cli_accum_buffer :=
              accum_dump_buffer (cli_accum_buffer iter) (ctx_dump_mem ctx) (cli_dump_size iter)\<rparr>))"

definition accum_clients :: "kbase_vinstr_context \<Rightarrow> kbase_vinstr_context" where
  "accum_clients ctx =
     ctx\<lparr>ctx_clients := map (\<lambda>(p, iter). (p, accum_client ctx iter)) (ctx_clients ctx)\<rparr>"

subsection \<open>The hardware context and its dump buffer\<close>

text \<open>What the allocators and the counter back end answer during one call of
  \<^verbatim>\<open>kbase_vinstr_attach_client\<close>: the pointer of \<^verbatim>\<open>kmalloc\<close> for the client, the
  pointer of \<^verbatim>\<open>kbase_create_context\<close>, the GPU address of \<^verbatim>\<open>kbase_mem_alloc\<close> (\<open>None\<close>
  when it returns no region), the pointer of \<^verbatim>\<open>kbase_vmap\<close>, the errno of
  \<^verbatim>\<open>kbase_instr_hwcnt_enable\<close>, and whether \<^verbatim>\<open>kzalloc\<close> of the accumulation buffer
  succeeds.\<close>

record attach_env =
  kmalloc_cli :: nat
  kbase_create_context :: nat
  kbase_mem_alloc :: "nat option"
  kbase_vmap :: nat
  hwcnt_enable_errno :: nat
  kzalloc_accum :: bool

text \<open>The content of the fresh mapping is not read before the hardware has written a
  dump into it; the model starts it at zero.\<close>

definition map_kernel_dump_buffer ::
  "attach_env \<Rightarrow> kbase_vinstr_context \<Rightarrow> int \<times> kbase_vinstr_context" where
  "map_kernel_dump_buffer env ctx =
     (let ctx = ctx\<lparr>ctx_dump_size := kbase_vinstr_dump_size ctx\<rparr> in
      case kbase_mem_alloc env of
        None \<Rightarrow> (- ENOMEM, ctx)
      | Some va \<Rightarrow>
          (let ctx = ctx\<lparr>ctx_gpu_va := va, ctx_trace := MemAlloc # ctx_trace ctx\<rparr>;
               ctx = ctx\<lparr>ctx_cpu_va := kbase_vmap env\<rparr>
           in if ctx_cpu_va ctx = NULL
              then (- ENOMEM, ctx\<lparr>ctx_trace := MemFree # ctx_trace ctx\<rparr>)
              else (0, ctx\<lparr>ctx_dump_mem := replicate (ctx_dump_size ctx div sizeof_u32) 0,
                           ctx_trace := Vmap # ctx_trace ctx\<rparr>)))"

definition unmap_kernel_dump_buffer :: "kbase_vinstr_context \<Rightarrow> kbase_vinstr_context" where
  "unmap_kernel_dump_buffer ctx = ctx\<lparr>ctx_trace := MemFree # Vunmap # ctx_trace ctx\<rparr>"

definition create_vinstr_kctx ::
  "attach_env \<Rightarrow> kbase_vinstr_context \<Rightarrow> int \<times> kbase_vinstr_context" where
  "create_vinstr_kctx env ctx =
     (let ctx = ctx\<lparr>ctx_kctx := kbase_create_context env\<rparr> in
      if ctx_kctx ctx = NULL then (- ENOMEM, ctx)
      else
        (let ctx = ctx\<lparr>ctx_trace := CreateContext # ctx_trace ctx\<rparr>;
             (err, ctx) = map_kernel_dump_buffer env ctx
         in if err \<noteq> 0
            then (err, ctx\<lparr>ctx_trace := DestroyContext # ctx_trace ctx\<rparr>)
            else
              (let (err, ctx) = enable_hwcnt (hwcnt_enable_errno env) ctx
               in if err \<noteq> 0
                  then (let ctx = unmap_kernel_dump_buffer ctx
                        in (err, ctx\<lparr>ctx_trace := DestroyContext # ctx_trace ctx\<rparr>))
                  else (0, ctx))))"

definition destroy_vinstr_kctx :: "kbase_vinstr_context \<Rightarrow> kbase_vinstr_context" where
  "destroy_vinstr_kctx ctx =
     (let ctx = disable_hwcnt ctx;
          ctx = unmap_kernel_dump_buffer ctx;
          ctx = ctx\<lparr>ctx_trace := DestroyContext # ctx_trace ctx\<rparr>
      in ctx\<lparr>ctx_kctx := NULL\<rparr>)"

text \<open>\<^verbatim>\<open>kbase_vinstr_init\<close>: the context is allocated with \<^verbatim>\<open>kzalloc\<close>.\<close>

definition kbase_vinstr_init :: "kbase_device \<Rightarrow> kbase_vinstr_context" where
  "kbase_vinstr_init kbdev =
     \<lparr>ctx_kbdev = kbdev, ctx_kctx = NULL, ctx_gpu_va = 0, ctx_cpu_va = NULL,
      ctx_dump_mem = [], ctx_dump_size = 0, ctx_bitmap = zerobitmap,
      ctx_reprogram = False, ctx_nclients = 0, ctx_clients = [], ctx_trace = []\<rparr>"

subsection \<open>Attaching and detaching clients\<close>

text \<open>\<^verbatim>\<open>map_client_accum_buffer\<close>: \<open>None\<close> stands for \<^verbatim>\<open>-ENOMEM\<close>.\<close>

definition map_client_accum_buffer ::
  "attach_env \<Rightarrow> kbase_vinstr_context \<Rightarrow> kbase_vinstr_client \<Rightarrow> kbase_vinstr_client option" where
  "map_client_accum_buffer env ctx cli =
     (let cli = cli\<lparr>cli_dump_size := kbase_vinstr_dump_size ctx\<rparr> in
      if kzalloc_accum env
      then Some (cli\<lparr>cli_accum_buffer := replicate (cli_dump_size cli div sizeof_u32) 0\<rparr>)
      else None)"

text \<open>The result is the pointer to the new client, \<open>NULL\<close> for a failure, and the
  context as the call leaves it. \<^verbatim>\<open>kmalloc\<close> does not initialise the struct: the fields
  \<^verbatim>\<open>dump_size\<close> and \<^verbatim>\<open>accum_buffer\<close> are written before they are read, and start
  here as 0 and the empty buffer.\<close>

definition kbase_vinstr_attach_client ::
  "attach_env \<Rightarrow> kbase_vinstr_context \<Rightarrow> bool \<Rightarrow> nat \<Rightarrow> bitmap4 \<Rightarrow> nat \<times> kbase_vinstr_context" where
  "kbase_vinstr_attach_client env ctx kern dump_buffer bitmap =
     (if kmalloc_cli env = NULL then (NULL, ctx)
      else
        (let cli = \<lparr>cli_kernel = kern, cli_pending = True, cli_dump_buffer = dump_buffer,
                    cli_dump_size = 0, cli_bitmap = hwcnt_bitmap_set zerobitmap bitmap,
                    cli_accum_buffer = []\<rparr>;
             ctx = ctx\<lparr>ctx_bitmap := hwcnt_bitmap_union (ctx_bitmap ctx) (cli_bitmap cli)\<rparr>;
             ctx = ctx\<lparr>ctx_reprogram := True\<rparr>;
             first = (if ctx_nclients ctx = 0
                      then (let ctx = ctx\<lparr>ctx_bitmap := hwcnt_bitmap_set (ctx_bitmap ctx) (cli_bitmap cli)\<rparr>;
                                (err, ctx) = create_vinstr_kctx env ctx
                            in if err < 0 then Inl ctx
                               else Inr (ctx\<lparr>ctx_reprogram := False\<rparr>, cli\<lparr>cli_pending := False\<rparr>))
                      else Inr (ctx, cli))
         in case first of
              Inl ctx \<Rightarrow> (NULL, ctx)
            | Inr (ctx, cli) \<Rightarrow>
                (let cli = (if MALI_SEC_HWCNT (ctx_kbdev ctx) \<and> cli_dump_buffer cli = 0
                            then cli\<lparr>cli_dump_buffer := ctx_cpu_va ctx\<rparr> else cli)
                 in case map_client_accum_buffer env ctx cli of
                      None \<Rightarrow>
                        (NULL, if ctx_nclients ctx = 0 then destroy_vinstr_kctx ctx else ctx)
                    | Some cli \<Rightarrow>
                        (kmalloc_cli env,
                         ctx\<lparr>ctx_nclients := ctx_nclients ctx + 1,
                             ctx_clients := (kmalloc_cli env, cli) # ctx_clients ctx\<rparr>))))"

text \<open>\<^verbatim>\<open>list_del\<close> of the first entry whose address is \<open>p\<close>.\<close>

fun list_del :: "nat \<Rightarrow> (nat \<times> 'a) list \<Rightarrow> (nat \<times> 'a) list" where
  "list_del p [] = []"
| "list_del p ((q, c) # xs) = (if q = p then xs else (q, c) # list_del p xs)"

definition kbase_vinstr_detach_client :: "kbase_vinstr_context \<Rightarrow> nat \<Rightarrow> kbase_vinstr_context" where
  "kbase_vinstr_detach_client ctx cli =
     (let ctx = (if cli \<in> set (map fst (ctx_clients ctx))
                 then (let ctx = ctx\<lparr>ctx_reprogram := True\<rparr>;
                           ctx = ctx\<lparr>ctx_clients := list_del cli (ctx_clients ctx)\<rparr>;
                           ctx = ctx\<lparr>ctx_nclients := ctx_nclients ctx - 1\<rparr>
                       in if ctx_nclients ctx = 0 then destroy_vinstr_kctx ctx else ctx)
                 else ctx);
          ctx = ctx\<lparr>ctx_bitmap := hwcnt_bitmap_set (ctx_bitmap ctx) zerobitmap\<rparr>
      in ctx\<lparr>ctx_bitmap :=
           fold (\<lambda>(p, iter) bm. hwcnt_bitmap_union bm (cli_bitmap iter)) (ctx_clients ctx)
             (ctx_bitmap ctx)\<rparr>)"

text \<open>\<^verbatim>\<open>kbase_vinstr_term\<close>: the clients still attached are freed one by one, the
  hardware context is destroyed when \<^verbatim>\<open>ctx->kctx\<close> is not \<open>NULL\<close>, and the context is
  freed; the result is the context as it is just before \<^verbatim>\<open>kfree(ctx)\<close>.\<close>

fun term_clients :: "kbase_vinstr_context \<Rightarrow> (nat \<times> kbase_vinstr_client) list \<Rightarrow> kbase_vinstr_context" where
  "term_clients ctx [] = ctx\<lparr>ctx_clients := []\<rparr>"
| "term_clients ctx (cli # rest) =
     term_clients (ctx\<lparr>ctx_clients := rest, ctx_nclients := ctx_nclients ctx - 1\<rparr>) rest"

definition kbase_vinstr_term :: "kbase_vinstr_context \<Rightarrow> kbase_vinstr_context" where
  "kbase_vinstr_term ctx =
     (let ctx = term_clients ctx (ctx_clients ctx)
      in if ctx_kctx ctx \<noteq> NULL then destroy_vinstr_kctx ctx else ctx)"

subsection \<open>Dumping and clearing\<close>

text \<open>What the hardware and \<^verbatim>\<open>copy_to_user\<close> answer during one call of
  \<^verbatim>\<open>kbase_vinstr_dump\<close> or \<^verbatim>\<open>kbase_vinstr_clear\<close>: the errno of each back-end call (0 for
  success), the content the hardware has written to the dump buffer when the wait
  returns, the value of \<^verbatim>\<open>kbdev->hwcnt.is_hwcnt_attach\<close>, and the result of
  \<^verbatim>\<open>copy_to_user\<close> (the number of bytes left to copy).\<close>

record dump_env =
  request_dump_errno :: nat
  wait_for_dump_errno :: nat
  hwcnt_clear_errno :: nat
  hw_dump :: "u32 list"
  is_hwcnt_attach :: bool
  copy_to_user :: nat
  reprogram_errno :: nat

text \<open>The writes to the struct the pointer \<open>cli\<close> designates.\<close>

definition update_client ::
  "nat \<Rightarrow> (kbase_vinstr_client \<Rightarrow> kbase_vinstr_client) \<Rightarrow> kbase_vinstr_context \<Rightarrow> kbase_vinstr_context" where
  "update_client cli f ctx =
     ctx\<lparr>ctx_clients := map (\<lambda>(p, c). if p = cli then (p, f c) else (p, c)) (ctx_clients ctx)\<rparr>"

text \<open>\<^verbatim>\<open>memset(cli->accum_buffer, 0, cli->dump_size)\<close>; the buffer was allocated with
  \<^verbatim>\<open>cli->dump_size\<close> bytes.\<close>

definition memset_accum :: "kbase_vinstr_client \<Rightarrow> kbase_vinstr_client" where
  "memset_accum cli = cli\<lparr>cli_accum_buffer := replicate (cli_dump_size cli div sizeof_u32) 0\<rparr>"

text \<open>The end of both functions: \<^verbatim>\<open>if (ctx->reprogram) { ... }\<close>, with the value
  returned.\<close>

definition reprogram_if_needed :: "dump_env \<Rightarrow> kbase_vinstr_context \<Rightarrow> int \<times> kbase_vinstr_context" where
  "reprogram_if_needed env ctx =
     (if ctx_reprogram ctx then
        (let (err, ctx) = reprogram_hwcnt (reprogram_errno env) ctx
         in if err \<noteq> 0 then (err, ctx)
            else (0, ctx\<lparr>ctx_reprogram := False,
                         ctx_clients := map (\<lambda>(p, iter). (p, iter\<lparr>cli_pending := False\<rparr>))
                                          (ctx_clients ctx)\<rparr>))
      else (0, ctx))"

text \<open>The result is \<open>None\<close> when \<open>cli\<close> is dereferenced without being the address of
  an attached client. Otherwise it is the value returned, the context, and the write
  to the destination: its address and the words copied there (\<open>None\<close> when nothing was
  delivered). A destination that is the dump buffer itself (the platform-specific code
  sets it so for a client attached with no buffer) overwrites the dump buffer.\<close>

definition kbase_vinstr_dump ::
  "dump_env \<Rightarrow> kbase_vinstr_context \<Rightarrow> nat
     \<Rightarrow> (int \<times> kbase_vinstr_context \<times> (nat \<times> u32 list) option) option" where
  "kbase_vinstr_dump env ctx cli =
     (if cli = NULL then Some (- EINVAL, ctx, None)
      else if request_dump_errno env \<noteq> 0
      then Some (- int (request_dump_errno env), ctx, None)
      else
        (let ctx = ctx\<lparr>ctx_trace := HwcntRequestDump # ctx_trace ctx\<rparr> in
         if wait_for_dump_errno env \<noteq> 0
         then Some (- int (wait_for_dump_errno env), ctx, None)
         else
           (let ctx = ctx\<lparr>ctx_dump_mem := hw_dump env,
                         ctx_trace := HwcntWaitForDump # ctx_trace ctx\<rparr> in
            if MALI_SEC_HWCNT (ctx_kbdev ctx) \<and> length (ctx_clients ctx) = 1
                 \<and> is_hwcnt_attach env
            then Some (0, ctx, None)
            else
              (let ctx = accum_clients ctx in
               case map_of (ctx_clients ctx) cli of
                 None \<Rightarrow> None
               | Some c \<Rightarrow>
                   if \<not> cli_kernel c \<and> copy_to_user env \<noteq> 0
                   then Some (- EFAULT, ctx, None)
                   else
                     (let ctx = (if cli_dump_buffer c = ctx_cpu_va ctx
                                 then ctx\<lparr>ctx_dump_mem := cli_accum_buffer c\<rparr> else ctx);
                          ctx = update_client cli memset_accum ctx;
                          (err, ctx) = reprogram_if_needed env ctx
                      in Some (err, ctx, Some (cli_dump_buffer c, cli_accum_buffer c)))))))"

definition kbase_vinstr_clear ::
  "dump_env \<Rightarrow> kbase_vinstr_context \<Rightarrow> nat \<Rightarrow> (int \<times> kbase_vinstr_context) option" where
  "kbase_vinstr_clear env ctx cli =
     (if cli = NULL then Some (- EINVAL, ctx)
      else if request_dump_errno env \<noteq> 0
      then Some (- int (request_dump_errno env), ctx)
      else
        (let ctx = ctx\<lparr>ctx_trace := HwcntRequestDump # ctx_trace ctx\<rparr> in
         if wait_for_dump_errno env \<noteq> 0
         then Some (- int (wait_for_dump_errno env), ctx)
         else
           (let ctx = ctx\<lparr>ctx_dump_mem := hw_dump env,
                         ctx_trace := HwcntWaitForDump # ctx_trace ctx\<rparr> in
            if hwcnt_clear_errno env \<noteq> 0
            then Some (- int (hwcnt_clear_errno env), ctx)
            else
              (let ctx = ctx\<lparr>ctx_trace := HwcntClear # ctx_trace ctx\<rparr>;
                   ctx = accum_clients ctx
               in case map_of (ctx_clients ctx) cli of
                    None \<Rightarrow> None
                  | Some c \<Rightarrow>
                      (let ctx = update_client cli memset_accum ctx
                       in Some (reprogram_if_needed env ctx))))))"

subsection \<open>The layout of a dump, as the header walks visit it\<close>

text \<open>The kind of a block decides which of the four bitmaps its enable mask is patched
  with; a reserved block has none.\<close>

datatype hwcnt_block = BLK_JM | BLK_TILER | BLK_SHADER | BLK_MMU_L2 | BLK_RESERVED

fun block_bm :: "hwcnt_block \<Rightarrow> bitmap4 \<Rightarrow> u32 option" where
  "block_bm BLK_JM bm = Some (JM_HWCNT_BM bm)"
| "block_bm BLK_TILER bm = Some (TILER_HWCNT_BM bm)"
| "block_bm BLK_SHADER bm = Some (SHADER_HWCNT_BM bm)"
| "block_bm BLK_MMU_L2 bm = Some (MMU_L2_HWCNT_BM bm)"
| "block_bm BLK_RESERVED bm = None"

text \<open>The blocks of one core group in the order of their offsets: \<^verbatim>\<open>SC0_BASE\<close> to
  \<^verbatim>\<open>SC3_BASE\<close> are the blocks 0 to 3, \<^verbatim>\<open>TILER_BASE\<close> is block 4, \<^verbatim>\<open>MMU_L2_BASE\<close> block 5
  and \<^verbatim>\<open>JM_BASE\<close> block 7; no offset of the enumeration names block 6.\<close>

definition v4_group_layout :: "hwcnt_block list" where
  "v4_group_layout =
     [BLK_SHADER, BLK_SHADER, BLK_SHADER, BLK_SHADER, BLK_TILER, BLK_MMU_L2, BLK_RESERVED, BLK_JM]"

definition v4_layout :: "kbase_device \<Rightarrow> hwcnt_block list" where
  "v4_layout kbdev = concat (replicate (unat (num_core_groups kbdev)) v4_group_layout)"

text \<open>The blocks \<^verbatim>\<open>patch_dump_buffer_hdr_v5\<close> steps through.\<close>

definition v5_layout :: "kbase_device \<Rightarrow> hwcnt_block list" where
  "v5_layout kbdev =
     [BLK_JM, BLK_TILER] @ replicate (unat (num_l2_slices kbdev)) BLK_MMU_L2
       @ replicate (unat (num_cores kbdev)) BLK_SHADER"

definition hwcnt_layout :: "kbase_device \<Rightarrow> hwcnt_block list" where
  "hwcnt_layout kbdev = (if BASE_HW_FEATURE_V4 kbdev then v4_layout kbdev else v5_layout kbdev)"

text \<open>The word a header walk is expected to leave at the position \<open>j\<close> (in words) of a
  block of kind \<open>blk\<close>, where the dump buffer holds \<open>s\<close> and the accumulation buffer held
  \<open>d\<close>: the header is the first \<open>NR_BYTES_PER_HDR\<close> bytes, the enable mask is at the byte
  \<open>PRFCNT_EN_MASK_OFFSET\<close>.\<close>

definition hdr_word :: "hwcnt_block \<Rightarrow> bitmap4 \<Rightarrow> nat \<Rightarrow> u32 \<Rightarrow> u32 \<Rightarrow> u32" where
  "hdr_word blk bm j s d =
     (case block_bm blk bm of
        None \<Rightarrow> d
      | Some m \<Rightarrow>
          if j < NR_BYTES_PER_HDR div sizeof_u32
          then (if j = PRFCNT_EN_MASK_OFFSET div sizeof_u32 then s AND m else s)
          else d)"

subsection \<open>The composition of a legacy core group in the words of the specification\<close>

text \<open>"Each group holds 8 fixed-size blocks (4 shader-core, 1 tiler, 1 memory-unit,
  2 reserved, 1 job-manager)", in that order.\<close>

definition spec_v4_group_composition :: "hwcnt_block list" where
  "spec_v4_group_composition =
     replicate 4 BLK_SHADER @ replicate 1 BLK_TILER @ replicate 1 BLK_MMU_L2
       @ replicate 2 BLK_RESERVED @ replicate 1 BLK_JM"

subsection \<open>Sample devices, contexts and clients\<close>

definition all_counters :: bitmap4 where
  "all_counters = \<lparr>JM_HWCNT_BM = 0xFFFFFFFF, TILER_HWCNT_BM = 0xFFFFFFFF,
     SHADER_HWCNT_BM = 0xFFFFFFFF, MMU_L2_HWCNT_BM = 0xFFFFFFFF\<rparr>"

definition shader_only :: bitmap4 where
  "shader_only = \<lparr>JM_HWCNT_BM = 0, TILER_HWCNT_BM = 0, SHADER_HWCNT_BM = 0xF, MMU_L2_HWCNT_BM = 0\<rparr>"

definition jm_only :: bitmap4 where
  "jm_only = \<lparr>JM_HWCNT_BM = 0xF, TILER_HWCNT_BM = 0, SHADER_HWCNT_BM = 0, MMU_L2_HWCNT_BM = 0\<rparr>"

definition tiler_only :: bitmap4 where
  "tiler_only = \<lparr>JM_HWCNT_BM = 0, TILER_HWCNT_BM = 1, SHADER_HWCNT_BM = 0, MMU_L2_HWCNT_BM = 0\<rparr>"

text \<open>A legacy device with one core group, and a current one with one slice of the
  memory unit and two shader cores.\<close>

definition dev_v4 :: kbase_device where
  "dev_v4 = \<lparr>BASE_HW_FEATURE_V4 = True, num_core_groups = 1, num_l2_slices = 1,
     num_cores = 4, MALI_SEC_HWCNT = False\<rparr>"

definition dev_v5 :: kbase_device where
  "dev_v5 = \<lparr>BASE_HW_FEATURE_V4 = False, num_core_groups = 1, num_l2_slices = 1,
     num_cores = 2, MALI_SEC_HWCNT = False\<rparr>"

text \<open>A context whose dump buffer holds the value 1 in every word, and a client that
  is not pending, with an accumulation buffer of zeros.\<close>

definition ctx_ones :: "kbase_device \<Rightarrow> nat \<Rightarrow> kbase_vinstr_context" where
  "ctx_ones kbdev n = (kbase_vinstr_init kbdev)\<lparr>ctx_dump_mem := replicate n 1\<rparr>"

definition cli_zeros :: "bitmap4 \<Rightarrow> nat \<Rightarrow> kbase_vinstr_client" where
  "cli_zeros bm n =
     \<lparr>cli_kernel = True, cli_pending = False, cli_dump_buffer = 0, cli_dump_size = 4 * n,
      cli_bitmap = bm, cli_accum_buffer = replicate n 0\<rparr>"

subsection \<open>What the properties speak about\<close>

text \<open>The union of the masks of the attached clients, in the words of the
  specification: category by category, the bitwise OR of the clients' masks,
  starting from zero.\<close>

definition or_all :: "u32 list \<Rightarrow> u32" where
  "or_all ws = foldr (OR) ws 0"

definition clients_union :: "(nat \<times> kbase_vinstr_client) list \<Rightarrow> bitmap4" where
  "clients_union cs =
     \<lparr>JM_HWCNT_BM = or_all (map (\<lambda>(p, c). JM_HWCNT_BM (cli_bitmap c)) cs),
      TILER_HWCNT_BM = or_all (map (\<lambda>(p, c). TILER_HWCNT_BM (cli_bitmap c)) cs),
      SHADER_HWCNT_BM = or_all (map (\<lambda>(p, c). SHADER_HWCNT_BM (cli_bitmap c)) cs),
      MMU_L2_HWCNT_BM = or_all (map (\<lambda>(p, c). MMU_L2_HWCNT_BM (cli_bitmap c)) cs)\<rparr>"

text \<open>Every bit of \<open>a\<close> is a bit of \<open>b\<close>, in each category.\<close>

definition bitmap_subset :: "bitmap4 \<Rightarrow> bitmap4 \<Rightarrow> bool" where
  "bitmap_subset a b \<longleftrightarrow>
     JM_HWCNT_BM a OR JM_HWCNT_BM b = JM_HWCNT_BM b
     \<and> TILER_HWCNT_BM a OR TILER_HWCNT_BM b = TILER_HWCNT_BM b
     \<and> SHADER_HWCNT_BM a OR SHADER_HWCNT_BM b = SHADER_HWCNT_BM b
     \<and> MMU_L2_HWCNT_BM a OR MMU_L2_HWCNT_BM b = MMU_L2_HWCNT_BM b"

text \<open>The hardware contexts and the mappings of the dump buffer that exist after a
  trace: those created less those destroyed.\<close>

definition live_kctx :: "hw_event list \<Rightarrow> int" where
  "live_kctx t = int (count_list t CreateContext) - int (count_list t DestroyContext)"

definition live_vmap :: "hw_event list \<Rightarrow> int" where
  "live_vmap t = int (count_list t Vmap) - int (count_list t Vunmap)"

text \<open>At every point of a trace, from the first call on, there is no live hardware
  context or there is one.\<close>

fun live_ok :: "hw_event list \<Rightarrow> bool" where
  "live_ok [] = True"
| "live_ok (e # t) = ((live_kctx (e # t) = 0 \<or> live_kctx (e # t) = 1) \<and> live_ok t)"

text \<open>The counter \<^verbatim>\<open>nclients\<close> is the number of clients in the list.\<close>

definition nclients_ok :: "kbase_vinstr_context \<Rightarrow> bool" where
  "nclients_ok ctx \<longleftrightarrow> unat (ctx_nclients ctx) = length (ctx_clients ctx)"

text \<open>The accumulation buffer holds zeros only, over its \<^verbatim>\<open>dump_size\<close> bytes.\<close>

definition accum_zero :: "kbase_vinstr_client \<Rightarrow> bool" where
  "accum_zero c \<longleftrightarrow> cli_accum_buffer c = replicate (cli_dump_size c div sizeof_u32) 0"

text \<open>The pending flags of the clients, in the order of the list.\<close>

definition pending_flags :: "kbase_vinstr_context \<Rightarrow> (nat \<times> bool) list" where
  "pending_flags ctx = map (\<lambda>(p, c). (p, cli_pending c)) (ctx_clients ctx)"

text \<open>The context on which \<^verbatim>\<open>accum_clients\<close> runs in \<^verbatim>\<open>kbase_vinstr_dump\<close>: the
  hardware has written its dump, and the two back-end calls are in the trace.\<close>

definition after_hw_dump :: "dump_env \<Rightarrow> kbase_vinstr_context \<Rightarrow> kbase_vinstr_context" where
  "after_hw_dump env ctx =
     ctx\<lparr>ctx_dump_mem := hw_dump env,
         ctx_trace := HwcntWaitForDump # HwcntRequestDump # ctx_trace ctx\<rparr>"

text \<open>\<^verbatim>\<open>kbase_vinstr_dump\<close> reaches \<^verbatim>\<open>copy_to_user\<close> or \<^verbatim>\<open>memcpy\<close>: the handle is not
  \<open>NULL\<close>, the dump and the wait succeed, and the platform-specific early return is not
  taken.\<close>

definition reaches_copy :: "dump_env \<Rightarrow> kbase_vinstr_context \<Rightarrow> nat \<Rightarrow> bool" where
  "reaches_copy env ctx cli \<longleftrightarrow>
     cli \<noteq> NULL \<and> request_dump_errno env = 0 \<and> wait_for_dump_errno env = 0
     \<and> \<not> (MALI_SEC_HWCNT (ctx_kbdev ctx) \<and> length (ctx_clients ctx) = 1 \<and> is_hwcnt_attach env)"

text \<open>The states of a context: \<^verbatim>\<open>kbase_vinstr_init\<close>, then any sequence of calls with any
  answers of the environment, where a client is attached only while fewer than
  \<open>2 ^ 32 - 1\<close> are (the counter \<^verbatim>\<open>nclients\<close> is a \<^verbatim>\<open>u32\<close>), and a dump or a clear is
  for a handle it can dereference.\<close>

inductive reachable :: "kbase_vinstr_context \<Rightarrow> bool" where
  init: "reachable (kbase_vinstr_init kbdev)"
| attach: "reachable ctx \<Longrightarrow> length (ctx_clients ctx) < 2 ^ 32 - 1 \<Longrightarrow>
     reachable (snd (kbase_vinstr_attach_client env ctx kern dump_buffer bitmap))"
| detach: "reachable ctx \<Longrightarrow> reachable (kbase_vinstr_detach_client ctx cli)"
| dump: "reachable ctx \<Longrightarrow> kbase_vinstr_dump denv ctx cli = Some (err, ctx', out) \<Longrightarrow>
     reachable ctx'"
| clear: "reachable ctx \<Longrightarrow> kbase_vinstr_clear denv ctx cli = Some (err, ctx') \<Longrightarrow>
     reachable ctx'"

text \<open>Answers of the environment: every call succeeds; the allocation of the
  accumulation buffer fails; the allocation of the dump buffer fails; the copy to the
  user faults.\<close>

definition env_ok :: "nat \<Rightarrow> attach_env" where
  "env_ok p = \<lparr>kmalloc_cli = p, kbase_create_context = 4096, kbase_mem_alloc = Some 8192,
     kbase_vmap = 12288, hwcnt_enable_errno = 0, kzalloc_accum = True\<rparr>"

definition env_no_accum :: "nat \<Rightarrow> attach_env" where
  "env_no_accum p = (env_ok p)\<lparr>kzalloc_accum := False\<rparr>"

definition env_no_mem :: "nat \<Rightarrow> attach_env" where
  "env_no_mem p = (env_ok p)\<lparr>kbase_mem_alloc := None\<rparr>"

definition denv_ok :: "u32 list \<Rightarrow> dump_env" where
  "denv_ok hw = \<lparr>request_dump_errno = 0, wait_for_dump_errno = 0, hwcnt_clear_errno = 0,
     hw_dump = hw, is_hwcnt_attach = False, copy_to_user = 0, reprogram_errno = 0\<rparr>"

definition denv_fault :: "u32 list \<Rightarrow> dump_env" where
  "denv_fault hw = (denv_ok hw)\<lparr>copy_to_user := 1280\<rparr>"

text \<open>Sample contexts: one client of the kernel attached to a fresh context, then a
  second one; and a fresh context with one client of user space.\<close>

definition ctx_one :: kbase_vinstr_context where
  "ctx_one =
     snd (kbase_vinstr_attach_client (env_ok 100) (kbase_vinstr_init dev_v5) True 0 shader_only)"

definition ctx_two :: kbase_vinstr_context where
  "ctx_two = snd (kbase_vinstr_attach_client (env_ok 200) ctx_one True 0 tiler_only)"

definition ctx_user :: kbase_vinstr_context where
  "ctx_user =
     snd (kbase_vinstr_attach_client (env_ok 100) (kbase_vinstr_init dev_v5) False 7 shader_only)"

text \<open>The context \<open>ctx_one\<close> with a second client, of user space.\<close>

definition ctx_mixed :: kbase_vinstr_context where
  "ctx_mixed = snd (kbase_vinstr_attach_client (env_ok 200) ctx_one False 7 tiler_only)"

text \<open>The clients of these contexts, as the calls leave them.\<close>

definition cli_mixed :: kbase_vinstr_client where
  "cli_mixed = \<lparr>cli_kernel = False, cli_pending = True, cli_dump_buffer = 7,
     cli_dump_size = 1280, cli_bitmap = tiler_only, cli_accum_buffer = replicate 320 0\<rparr>"

definition cli_user :: kbase_vinstr_client where
  "cli_user = \<lparr>cli_kernel = False, cli_pending = False, cli_dump_buffer = 7,
     cli_dump_size = 1280, cli_bitmap = shader_only, cli_accum_buffer = replicate 320 0\<rparr>"

definition cli_first :: kbase_vinstr_client where
  "cli_first = \<lparr>cli_kernel = True, cli_pending = False, cli_dump_buffer = 0,
     cli_dump_size = 1280, cli_bitmap = shader_only, cli_accum_buffer = replicate 320 0\<rparr>"

definition cli_second :: kbase_vinstr_client where
  "cli_second = \<lparr>cli_kernel = True, cli_pending = True, cli_dump_buffer = 0,
     cli_dump_size = 1280, cli_bitmap = tiler_only, cli_accum_buffer = replicate 320 0\<rparr>"

subsection \<open>Conditions used in the proofs\<close>

text \<open>\<^verbatim>\<open>create_vinstr_kctx\<close> succeeds; \<^verbatim>\<open>kbase_vinstr_attach_client\<close> succeeds.\<close>

definition create_ok :: "attach_env \<Rightarrow> bool" where
  "create_ok env \<longleftrightarrow> kbase_create_context env \<noteq> NULL \<and> kbase_mem_alloc env \<noteq> None
     \<and> kbase_vmap env \<noteq> NULL \<and> hwcnt_enable_errno env = 0"

definition attach_ok :: "attach_env \<Rightarrow> kbase_vinstr_context \<Rightarrow> bool" where
  "attach_ok env ctx \<longleftrightarrow>
     kmalloc_cli env \<noteq> NULL \<and> (ctx_nclients ctx = 0 \<longrightarrow> create_ok env) \<and> kzalloc_accum env"

text \<open>What a dump or a clear may change of a client, and of the context: the handle, the
  bitmap and the size of a client stay, a client is pending after the call only if it
  was before, and then its buffer is still zero if it was; the counter of clients, the
  superset mask, the device and the live hardware resources of the context stay.\<close>

definition client_kept ::
  "nat \<times> kbase_vinstr_client \<Rightarrow> nat \<times> kbase_vinstr_client \<Rightarrow> bool" where
  "client_kept x y \<longleftrightarrow>
     fst y = fst x \<and> cli_bitmap (snd y) = cli_bitmap (snd x)
     \<and> cli_dump_size (snd y) = cli_dump_size (snd x)
     \<and> (cli_pending (snd y) \<longrightarrow> cli_pending (snd x) \<and> (accum_zero (snd x) \<longrightarrow> accum_zero (snd y)))"

definition ctx_kept :: "kbase_vinstr_context \<Rightarrow> kbase_vinstr_context \<Rightarrow> bool" where
  "ctx_kept ctx ctx' \<longleftrightarrow>
     ctx_nclients ctx' = ctx_nclients ctx \<and> ctx_bitmap ctx' = ctx_bitmap ctx
     \<and> ctx_kbdev ctx' = ctx_kbdev ctx
     \<and> live_kctx (ctx_trace ctx') = live_kctx (ctx_trace ctx)
     \<and> live_vmap (ctx_trace ctx') = live_vmap (ctx_trace ctx)
     \<and> count_list (ctx_trace ctx') CreateContext = count_list (ctx_trace ctx) CreateContext
     \<and> (\<exists>es. ctx_trace ctx' = es @ ctx_trace ctx
            \<and> CreateContext \<notin> set es \<and> DestroyContext \<notin> set es)
     \<and> list_all2 client_kept (ctx_clients ctx) (ctx_clients ctx')"

text \<open>Between two contexts, the pending flags and the flag \<^verbatim>\<open>reprogram\<close> are the same;
  or a reprogramming took place: \<^verbatim>\<open>reprogram\<close> was set and is now clear, no client is
  pending, and the last calls to the hardware disabled the counters and enabled them
  with the superset mask.\<close>

definition flags_kept :: "kbase_vinstr_context \<Rightarrow> kbase_vinstr_context \<Rightarrow> bool" where
  "flags_kept ctx ctx' \<longleftrightarrow>
     pending_flags ctx' = pending_flags ctx \<and> ctx_reprogram ctx' = ctx_reprogram ctx"

definition reprogrammed :: "kbase_vinstr_context \<Rightarrow> kbase_vinstr_context \<Rightarrow> bool" where
  "reprogrammed ctx ctx' \<longleftrightarrow>
     ctx_reprogram ctx \<and> \<not> ctx_reprogram ctx'
     \<and> list_all (\<lambda>(p, c). \<not> cli_pending c) (ctx_clients ctx')
     \<and> take 2 (ctx_trace ctx') = [HwcntEnable (ctx_bitmap ctx), HwcntDisable]"

text \<open>A call of \<^verbatim>\<open>kbase_vinstr_dump\<close>, or of \<^verbatim>\<open>kbase_vinstr_clear\<close>, comes to its last
  step, \<^verbatim>\<open>if (ctx->reprogram)\<close>, with the flag set, and the hardware accepts the new
  program: for a dump, the copy is reached for an attached client and does not fault; for
  a clear, the handle is an attached client and the three back-end calls succeed.\<close>

definition dump_reprograms :: "dump_env \<Rightarrow> kbase_vinstr_context \<Rightarrow> nat \<Rightarrow> bool" where
  "dump_reprograms env ctx h \<longleftrightarrow>
     reaches_copy env ctx h
     \<and> (case map_of (ctx_clients ctx) h of
          None \<Rightarrow> False
        | Some c \<Rightarrow> cli_kernel c \<or> copy_to_user env = 0)
     \<and> ctx_reprogram ctx \<and> reprogram_errno env = 0"

definition clear_reprograms :: "dump_env \<Rightarrow> kbase_vinstr_context \<Rightarrow> nat \<Rightarrow> bool" where
  "clear_reprograms env ctx h \<longleftrightarrow>
     h \<noteq> NULL \<and> request_dump_errno env = 0 \<and> wait_for_dump_errno env = 0
     \<and> hwcnt_clear_errno env = 0 \<and> map_of (ctx_clients ctx) h \<noteq> None
     \<and> ctx_reprogram ctx \<and> reprogram_errno env = 0"

section \<open>Properties\<close>

subsection \<open>The accumulation loops, word by word\<close>

lemma length_accum_counters [simp]:
  "length (accum_counters n d s dst src) = length dst"
  by (induction n arbitrary: d s dst) simp_all

lemma nth_accum_counters:
  "k < length dst \<Longrightarrow>
   accum_counters n d s dst src ! k =
     (if d \<le> k \<and> k < d + n then sat_add_u32 (dst ! k) (src ! (s + (k - d))) else dst ! k)"
proof (induction n arbitrary: d s dst)
  case 0
  then show ?case by auto
next
  case (Suc n)
  let ?dst1 = "dst[d := sat_add_u32 (dst ! d) (src ! s)]"
  have ih: "accum_counters n (d + 1) (s + 1) ?dst1 src ! k =
     (if d + 1 \<le> k \<and> k < d + 1 + n
      then sat_add_u32 (?dst1 ! k) (src ! (s + 1 + (k - (d + 1)))) else ?dst1 ! k)"
    using Suc.prems by (intro Suc.IH) simp
  have idx: "d + 1 \<le> k \<Longrightarrow> s + 1 + (k - (d + 1)) = s + (k - d)"
    by simp
  show ?case
  proof (cases "d + 1 \<le> k")
    case True
    then have "?dst1 ! k = dst ! k" by simp
    with True ih idx show ?thesis by simp
  next
    case False
    with ih Suc.prems show ?thesis
      by (cases "k = d") simp_all
  qed
qed

lemma length_accum_blocks [simp]:
  "length (accum_blocks i n d s dst src) = length dst"
proof (induction i n d s dst src rule: accum_blocks.induct)
  case (1 i n d s dst src)
  show ?case
    using "1.IH" by (subst accum_blocks.simps) (simp add: Let_def)
qed

lemma accum_blocks_step:
  "i < n \<Longrightarrow> accum_blocks i n d s dst src =
     accum_blocks (i + 256) n (d + 64) (s + 64) (accum_counters 60 (d + 4) (s + 4) dst src) src"
  by (subst accum_blocks.simps)
     (simp add: Let_def NR_CNT_PER_BLOCK_def NR_BYTES_PER_CNT_def NR_BYTES_PER_HDR_def
        sizeof_u32_def add.assoc)

lemma accum_blocks_stop:
  "\<not> i < n \<Longrightarrow> accum_blocks i n d s dst src = dst"
  by (subst accum_blocks.simps) (simp add: Let_def)

lemma nth_accum_blocks:
  "k < length dst \<Longrightarrow>
   accum_blocks i n d s dst src ! k =
     (if d \<le> k \<and> (k - d) div 64 < (n - i + 255) div 256 \<and> 4 \<le> (k - d) mod 64
      then sat_add_u32 (dst ! k) (src ! (s + (k - d))) else dst ! k)"
proof (induction i n d s dst src rule: accum_blocks.induct)
  case (1 i n d s dst src)
  show ?case
  proof (cases "i < n")
    case False
    then have "(n - i + 255) div 256 = 0" by simp
    with False show ?thesis by (simp add: accum_blocks_stop)
  next
    case True
    let ?dst1 = "accum_counters 60 (d + 4) (s + 4) dst src"
    have ih: "accum_blocks (i + 256) n (d + 64) (s + 64) ?dst1 src ! k =
       (if d + 64 \<le> k \<and> (k - (d + 64)) div 64 < (n - (i + 256) + 255) div 256
             \<and> 4 \<le> (k - (d + 64)) mod 64
        then sat_add_u32 (?dst1 ! k) (src ! (s + 64 + (k - (d + 64)))) else ?dst1 ! k)"
      using "1.IH"[OF refl True refl refl refl] "1.prems"
      by (simp add: NR_CNT_PER_BLOCK_def NR_BYTES_PER_CNT_def NR_BYTES_PER_HDR_def
            sizeof_u32_def add.assoc)
    have d1: "?dst1 ! k =
       (if d + 4 \<le> k \<and> k < d + 64 then sat_add_u32 (dst ! k) (src ! (s + (k - d))) else dst ! k)"
    proof -
      have "d + 4 \<le> k \<Longrightarrow> s + 4 + (k - (d + 4)) = s + (k - d)" by simp
      then show ?thesis using "1.prems" by (simp add: nth_accum_counters add.assoc)
    qed
    have nb: "(n - i + 255) div 256 = Suc ((n - (i + 256) + 255) div 256)"
    proof (cases "i + 256 \<le> n")
      case True
      then have "n - i + 255 = (n - (i + 256) + 255) + 256" by simp
      then have "(n - i + 255) div 256 = ((n - (i + 256) + 255) + 256) div 256"
        by (simp only:)
      also have "\<dots> = (n - (i + 256) + 255) div 256 + 1"
        by (rule div_add_self2) simp
      finally show ?thesis by (simp only: Suc_eq_plus1)
    next
      case False
      with \<open>i < n\<close> have z: "n - (i + 256) = 0" and "256 \<le> n - i + 255" "n - i + 255 < 512"
        by simp_all
      then have "(n - i + 255) div 256 = 1"
        by (intro div_nat_eqI) simp_all
      then show ?thesis by (simp add: z)
    qed
    show ?thesis
    proof (cases "k < d + 64")
      case True
      then have "d \<le> k \<Longrightarrow> (k - d) div 64 = 0" "d \<le> k \<Longrightarrow> (k - d) mod 64 = k - d"
        by simp_all
      with True ih d1 nb show ?thesis
        by (simp add: accum_blocks_step[OF \<open>i < n\<close>]) linarith
    next
      case False
      then have "k - d = (k - (d + 64)) + 64" by simp
      then have a: "(k - d) div 64 = Suc ((k - (d + 64)) div 64)"
        "(k - d) mod 64 = (k - (d + 64)) mod 64"
        by (metis div_add_self2 zero_neq_numeral Suc_eq_plus1, metis mod_add_self2)
      have b: "s + 64 + (k - (d + 64)) = s + (k - d)" using False by simp
      from False have c: "?dst1 ! k = dst ! k" "d \<le> k" "d + 64 \<le> k" using d1 by simp_all
      show ?thesis
        by (simp add: accum_blocks_step[OF \<open>i < n\<close>] ih a b c nb)
    qed
  qed
qed

lemma unat_U32_MAX: "unat U32_MAX = 4294967295"
  by (simp add: U32_MAX_def)

lemma unat_sat_add_u32:
  "unat (sat_add_u32 a b) = min (unat a + unat b) 4294967295"
proof -
  have la: "unat a < 4294967296" and lb: "unat b < 4294967296"
    using unsigned_less[of a] unsigned_less[of b] by simp_all
  have "a \<le> U32_MAX" by (simp add: U32_MAX_def word_le_nat_alt) (use la in linarith)
  then have sub: "unat (U32_MAX - a) = 4294967295 - unat a"
    by (simp add: unat_sub unat_U32_MAX)
  show ?thesis
  proof (cases "U32_MAX - a < b")
    case True
    then have "4294967295 - unat a < unat b"
      using sub by (simp add: word_less_nat_alt)
    then show ?thesis using True by (simp add: sat_add_u32_def unat_U32_MAX)
  next
    case False
    then have le: "unat b \<le> 4294967295 - unat a"
      using sub by (simp add: word_less_nat_alt)
    then have "unat a + unat b < 2 ^ 32" using la by simp
    then have "unat (a + b) = unat a + unat b"
      by (simp add: unat_add_lem[THEN iffD1])
    then show ?thesis using False le la by (simp add: sat_add_u32_def)
  qed
qed

lemma nth_accum_dump_buffer:
  assumes "length dst * 4 = dump_size" and "k < length dst"
  shows "accum_dump_buffer dst src dump_size ! k =
      (if 4 \<le> k mod 64 then sat_add_u32 (dst ! k) (src ! k) else dst ! k)"
proof -
  have "k div 64 < (dump_size - 0 + 255) div 256" using assms by (simp add: less_mult_imp_div_less)
  then show ?thesis
    using nth_accum_blocks[OF assms(2), of 0 dump_size 0 0 src]
    by (simp add: accum_dump_buffer_def)
qed

lemma length_accum_dump_buffer [simp]:
  "length (accum_dump_buffer dst src dump_size) = length dst"
  by (simp add: accum_dump_buffer_def)

text \<open>
  Claim C3. \<^verbatim>\<open>accum_dump_buffer\<close> on two buffers of \<open>dump_size\<close> bytes, a whole number
  of 256-byte blocks: the buffer keeps its length, the first 16 bytes (four words) of
  every block of the accumulation buffer are left as they are, and every other word
  becomes the sum of the accumulated and the dumped counter, clamped at
  \<open>2 ^ 32 - 1\<close>: \<open>min (a + b) U32_MAX\<close> in exact arithmetic, never a wrapped value.
\<close>

theorem accum_dump_buffer_saturates:
  assumes "length dst * 4 = dump_size" and "length src * 4 = dump_size"
    and "NR_CNT_PER_BLOCK * NR_BYTES_PER_CNT dvd dump_size"
  shows "length (accum_dump_buffer dst src dump_size) = length dst \<and>
    (\<forall>k < length dst.
       if k mod NR_CNT_PER_BLOCK < NR_BYTES_PER_HDR div NR_BYTES_PER_CNT
       then accum_dump_buffer dst src dump_size ! k = dst ! k
       else unat (accum_dump_buffer dst src dump_size ! k)
              = min (unat (dst ! k) + unat (src ! k)) (2 ^ 32 - 1))"
proof -
  from assms(3) obtain m where m: "dump_size = 256 * m"
    by (auto simp: NR_CNT_PER_BLOCK_def NR_BYTES_PER_CNT_def)
  then have len: "length dst = 64 * m" using assms(1) by simp
  have nb: "(dump_size - 0 + 255) div 256 = m" using m by simp
  have "accum_dump_buffer dst src dump_size ! k =
      (if 4 \<le> k mod 64 then sat_add_u32 (dst ! k) (src ! k) else dst ! k)"
    if "k < length dst" for k
  proof -
    have "k div 64 < m" using that len by simp
    then show ?thesis
      using nth_accum_blocks[OF that, of 0 dump_size 0 0 src] nb
      by (simp add: accum_dump_buffer_def)
  qed
  then show ?thesis
    by (auto simp: accum_dump_buffer_def unat_sat_add_u32 NR_CNT_PER_BLOCK_def
        NR_BYTES_PER_HDR_def NR_BYTES_PER_CNT_def)
qed

theorem accum_dump_buffer_saturates_witness:
  "unat (accum_dump_buffer (replicate 64 0xFFFFFFF0) (replicate 64 0x20) 256 ! 5) = 2 ^ 32 - 1
   \<and> accum_dump_buffer (replicate 64 0xFFFFFFF0) (replicate 64 0x20) 256 ! 2 = 0xFFFFFFF0
   \<and> unat (accum_dump_buffer (replicate 64 7) (replicate 64 0x20) 256 ! 63) = 39"
proof -
  have h: "length (replicate 64 (x :: u32)) * 4 = 256"
    "NR_CNT_PER_BLOCK * NR_BYTES_PER_CNT dvd 256" for x
    by (simp_all add: NR_CNT_PER_BLOCK_def NR_BYTES_PER_CNT_def)
  have a: "\<forall>k < 64.
       if k mod 64 < 4
       then accum_dump_buffer (replicate 64 0xFFFFFFF0) (replicate 64 0x20) 256 ! k
              = replicate 64 0xFFFFFFF0 ! k
       else unat (accum_dump_buffer (replicate 64 0xFFFFFFF0) (replicate 64 0x20) 256 ! k)
              = min (unat (replicate 64 (0xFFFFFFF0 :: u32) ! k)
                     + unat (replicate 64 (0x20 :: u32) ! k)) (2 ^ 32 - 1)"
    using accum_dump_buffer_saturates [OF h(1) h(1) h(2), of "0xFFFFFFF0" "0x20"]
    by (simp add: NR_CNT_PER_BLOCK_def NR_BYTES_PER_CNT_def NR_BYTES_PER_HDR_def)
  have b: "\<forall>k < 64.
       if k mod 64 < 4
       then accum_dump_buffer (replicate 64 7) (replicate 64 0x20) 256 ! k
              = replicate 64 7 ! k
       else unat (accum_dump_buffer (replicate 64 7) (replicate 64 0x20) 256 ! k)
              = min (unat (replicate 64 (7 :: u32) ! k)
                     + unat (replicate 64 (0x20 :: u32) ! k)) (2 ^ 32 - 1)"
    using accum_dump_buffer_saturates [OF h(1) h(1) h(2), of 7 "0x20"]
    by (simp add: NR_CNT_PER_BLOCK_def NR_BYTES_PER_CNT_def NR_BYTES_PER_HDR_def)
  from a [rule_format, of 5] a [rule_format, of 2] b [rule_format, of 63]
  show ?thesis by simp
qed

subsection \<open>The header walks, word by word\<close>

lemma memcpy_hdr_upd:
  "memcpy_hdr dst doff src soff =
     dst[doff div 4 := src ! (soff div 4), doff div 4 + 1 := src ! (soff div 4 + 1),
         doff div 4 + 2 := src ! (soff div 4 + 2), doff div 4 + 3 := src ! (soff div 4 + 3)]"
proof -
  have "[0 ..< 4] = [0, 1, 2, Suc 2]" by (simp add: upt_rec)
  then show ?thesis
    by (simp add: memcpy_hdr_def NR_BYTES_PER_HDR_def sizeof_u32_def numeral_3_eq_3)
qed

lemma length_memcpy_hdr [simp]: "length (memcpy_hdr dst doff src soff) = length dst"
  by (simp add: memcpy_hdr_upd)

lemma length_patch_en_mask [simp]: "length (patch_en_mask dst off bm) = length dst"
  by (simp add: patch_en_mask_def Let_def)

lemma nth_memcpy_hdr:
  assumes "k < length dst"
  shows "memcpy_hdr dst off src off ! k =
    (if off div 4 \<le> k \<and> k < off div 4 + 4 then src ! k else dst ! k)"
proof (cases "off div 4 \<le> k \<and> k < off div 4 + 4")
  case False
  then show ?thesis using assms by (auto simp: memcpy_hdr_upd nth_list_update)
next
  case True
  then consider "k = off div 4" | "k = off div 4 + 1" | "k = off div 4 + 2" | "k = off div 4 + 3"
    by linarith
  then show ?thesis using assms
    by cases (simp_all add: memcpy_hdr_upd nth_list_update)
qed

lemma nth_patch_en_mask:
  "k < length dst \<Longrightarrow>
   patch_en_mask dst off bm ! k = (if k = (off + 8) div 4 then dst ! k AND bm else dst ! k)"
  by (simp add: patch_en_mask_def PRFCNT_EN_MASK_OFFSET_def sizeof_u32_def Let_def
      nth_list_update)

lemma length_copy_and_patch [simp]:
  "length (copy_and_patch bm src off dst) = length dst"
  by (simp add: copy_and_patch_def)

lemma nth_copy_and_patch:
  assumes "k < length dst"
  shows "copy_and_patch bm src off dst ! k =
     (if off div 4 \<le> k \<and> k < off div 4 + 4
      then (if k = off div 4 + 2 then src ! k AND bm else src ! k) else dst ! k)"
proof -
  have "(off + 8) div 4 = off div 4 + 2" by simp
  then show ?thesis using assms
    by (simp add: copy_and_patch_def nth_patch_en_mask nth_memcpy_hdr)
qed

lemma length_patch_blocks_v5 [simp]:
  "length (patch_blocks_v5 n bm src off dst) = length dst"
  by (induction n arbitrary: off dst) simp_all

lemma nth_patch_blocks_v5:
  "k < length dst \<Longrightarrow>
   patch_blocks_v5 n bm src off dst ! k =
     (if off div 4 \<le> k \<and> k < off div 4 + 64 * n \<and> (k - off div 4) mod 64 < 4
      then (if (k - off div 4) mod 64 = 2 then src ! k AND bm else src ! k) else dst ! k)"
proof (induction n arbitrary: off dst)
  case 0
  then show ?case by auto
next
  case (Suc n)
  define w where "w = off div 4"
  let ?dst1 = "copy_and_patch bm src off dst"
  have off: "(off + NR_CNT_PER_BLOCK * NR_BYTES_PER_CNT) div 4 = w + 64"
    by (simp add: NR_CNT_PER_BLOCK_def NR_BYTES_PER_CNT_def w_def)
  have ih: "patch_blocks_v5 n bm src (off + NR_CNT_PER_BLOCK * NR_BYTES_PER_CNT) ?dst1 ! k =
     (if w + 64 \<le> k \<and> k < w + 64 + 64 * n \<and> (k - (w + 64)) mod 64 < 4
      then (if (k - (w + 64)) mod 64 = 2 then src ! k AND bm else src ! k) else ?dst1 ! k)"
    using Suc.prems Suc.IH[of ?dst1 "off + NR_CNT_PER_BLOCK * NR_BYTES_PER_CNT"]
    by (simp add: off)
  have d1: "?dst1 ! k =
     (if w \<le> k \<and> k < w + 4 then (if k = w + 2 then src ! k AND bm else src ! k) else dst ! k)"
    using Suc.prems by (simp add: nth_copy_and_patch w_def)
  show ?case
  proof (cases "k < w + 64")
    case True
    then have "w \<le> k \<Longrightarrow> (k - w) mod 64 = k - w" by simp
    with True ih d1 show ?thesis
      unfolding w_def[symmetric] by (auto simp: w_def[symmetric])
  next
    case False
    then have "k - w = (k - (w + 64)) + 64" by simp
    then have m: "(k - w) mod 64 = (k - (w + 64)) mod 64"
      by (metis mod_add_self2)
    from False have "?dst1 ! k = dst ! k" using d1 by simp
    with False ih m show ?thesis unfolding w_def[symmetric] by simp
  qed
qed

lemma v4_offset_div: "(2048 * i + c) div 4 = 512 * i + c div 4" for i c :: nat
  by simp

lemma v4_offset_div0: "(2048 * i) div 4 = 512 * i" for i :: nat
  by simp

lemma nth_patch_v4_group_raw:
  assumes "k < length dst"
  shows "patch_v4_group bm src i dst ! k =
    (if k = 512 * i + 2 \<or> k = 512 * i + 66 \<or> k = 512 * i + 130 \<or> k = 512 * i + 194
     then src ! k AND SHADER_HWCNT_BM bm
     else if k = 512 * i + 258 then src ! k AND TILER_HWCNT_BM bm
     else if k = 512 * i + 322 then src ! k AND MMU_L2_HWCNT_BM bm
     else if k = 512 * i + 450 then src ! k AND JM_HWCNT_BM bm
     else if (512 * i \<le> k \<and> k < 512 * i + 4) \<or> (512 * i + 64 \<le> k \<and> k < 512 * i + 68)
          \<or> (512 * i + 128 \<le> k \<and> k < 512 * i + 132) \<or> (512 * i + 192 \<le> k \<and> k < 512 * i + 196)
          \<or> (512 * i + 256 \<le> k \<and> k < 512 * i + 260) \<or> (512 * i + 320 \<le> k \<and> k < 512 * i + 324)
          \<or> (512 * i + 448 \<le> k \<and> k < 512 * i + 452)
     then src ! k else dst ! k)"
  using assms
  by (simp add: patch_v4_group_def Let_def nth_patch_en_mask nth_memcpy_hdr
      NR_CNT_BLOCKS_PER_GROUP_def NR_CNT_PER_BLOCK_def NR_BYTES_PER_CNT_def
      SC0_BASE_def SC1_BASE_def SC2_BASE_def SC3_BASE_def TILER_BASE_def MMU_L2_BASE_def
      JM_BASE_def v4_offset_div v4_offset_div0 mult.commute[of _ 2048])



lemma length_patch_v4_group [simp]: "length (patch_v4_group bm src i dst) = length dst"
  by (simp add: patch_v4_group_def Let_def)

lemma nth_patch_v4_group_in:
  assumes "b < 8" "j < 64" "512 * i + 64 * b + j < length dst"
  shows "patch_v4_group bm src i dst ! (512 * i + 64 * b + j) =
    hdr_word (v4_group_layout ! b) bm j (src ! (512 * i + 64 * b + j)) (dst ! (512 * i + 64 * b + j))"
proof -
  from assms(1) consider "b = 0" | "b = 1" | "b = 2" | "b = 3" | "b = 4" | "b = 5" | "b = 6" | "b = 7"
    by linarith
  then show ?thesis using assms(2,3)
    by cases
      (auto simp: nth_patch_v4_group_raw hdr_word_def v4_group_layout_def NR_BYTES_PER_HDR_def
        sizeof_u32_def PRFCNT_EN_MASK_OFFSET_def)
qed

lemma nth_patch_v4_group_out:
  assumes "k < length dst" "k < 512 * i \<or> 512 * i + 512 \<le> k"
  shows "patch_v4_group bm src i dst ! k = dst ! k"
proof (cases "k < 512 * i")
  case True
  then show ?thesis by (simp add: nth_patch_v4_group_raw[OF assms(1)])
next
  case False
  then have "512 * i + 512 \<le> k" using assms(2) by simp
  then show ?thesis by (simp add: nth_patch_v4_group_raw[OF assms(1)])
qed

lemma length_fold_patch_v4 [simp]:
  "length (fold (patch_v4_group bm src) [0 ..< n] dst) = length dst"
  by (induction n) simp_all

lemma nth_fold_patch_v4_out:
  "k < length dst \<Longrightarrow> 512 * n \<le> k \<Longrightarrow> fold (patch_v4_group bm src) [0 ..< n] dst ! k = dst ! k"
  by (induction n) (simp_all add: nth_patch_v4_group_out)

lemma nth_fold_patch_v4_in:
  "g < n \<Longrightarrow> b < 8 \<Longrightarrow> j < 64 \<Longrightarrow> 512 * g + 64 * b + j < length dst \<Longrightarrow>
   fold (patch_v4_group bm src) [0 ..< n] dst ! (512 * g + 64 * b + j) =
     hdr_word (v4_group_layout ! b) bm j (src ! (512 * g + 64 * b + j)) (dst ! (512 * g + 64 * b + j))"
proof (induction n)
  case 0
  then show ?case by simp
next
  case (Suc n)
  let ?k = "512 * g + 64 * b + j"
  let ?d = "fold (patch_v4_group bm src) [0 ..< n] dst"
  show ?case
  proof (cases "g = n")
    case True
    have "?d ! ?k = dst ! ?k"
      using Suc.prems True by (intro nth_fold_patch_v4_out) simp_all
    then show ?thesis
      using Suc.prems True nth_patch_v4_group_in[of b j n ?d bm src] by simp
  next
    case False
    then have "g < n" using Suc.prems by simp
    then have "512 * g + 512 \<le> 512 * n" by simp
    then have "?k < 512 * n" using Suc.prems(2,3) by linarith
    then show ?thesis
      using Suc.IH[OF \<open>g < n\<close> Suc.prems(2,3,4)] Suc.prems
      by (simp add: nth_patch_v4_group_out)
  qed
qed

lemma nth_v4_layout:
  "g < n \<Longrightarrow> b < 8 \<Longrightarrow> concat (replicate n v4_group_layout) ! (8 * g + b) = v4_group_layout ! b"
proof (induction n arbitrary: g)
  case 0
  then show ?case by simp
next
  case (Suc n)
  have len: "length v4_group_layout = 8" by (simp add: v4_group_layout_def)
  show ?case
  proof (cases g)
    case 0
    then show ?thesis using Suc.prems len by (simp add: nth_append)
  next
    case (Suc g')
    then show ?thesis using Suc.prems Suc.IH[of g'] len by (simp add: nth_append)
  qed
qed

lemma length_v4_layout: "length (v4_layout kbdev) = 8 * unat (num_core_groups kbdev)"
  by (simp add: v4_layout_def length_concat v4_group_layout_def sum_list_replicate)

lemma length_v5_layout:
  "length (v5_layout kbdev) = 2 + unat (num_l2_slices kbdev) + unat (num_cores kbdev)"
  by (simp add: v5_layout_def)

lemma patch_v4_blocks:
  assumes B: "B < length (v4_layout (ctx_kbdev ctx))" and j: "j < 64"
    and len: "64 * B + j < length (cli_accum_buffer cli)"
  shows "cli_accum_buffer (patch_dump_buffer_hdr_v4 ctx cli) ! (64 * B + j) =
    hdr_word (v4_layout (ctx_kbdev ctx) ! B) (cli_bitmap cli) j
      (ctx_dump_mem ctx ! (64 * B + j)) (cli_accum_buffer cli ! (64 * B + j))"
proof -
  define n where "n = unat (num_core_groups (ctx_kbdev ctx))"
  define g b where "g = B div 8" and "b = B mod 8"
  have Bgb: "B = 8 * g + b" and b: "b < 8" by (simp_all add: g_def b_def)
  have g: "g < n" using B by (simp add: length_v4_layout n_def g_def less_mult_imp_div_less mult.commute)
  have k: "64 * B + j = 512 * g + 64 * b + j" by (simp add: Bgb)
  have L: "v4_layout (ctx_kbdev ctx) ! B = v4_group_layout ! b"
    unfolding v4_layout_def n_def[symmetric] Bgb by (rule nth_v4_layout[OF g b])
  show ?thesis
    unfolding L k
    using nth_fold_patch_v4_in[OF g b j, of "cli_accum_buffer cli" "cli_bitmap cli" "ctx_dump_mem ctx"]
      len k
    by (simp add: patch_dump_buffer_hdr_v4_def Let_def n_def)
qed

lemma length_patch_v4 [simp]:
  "length (cli_accum_buffer (patch_dump_buffer_hdr_v4 ctx cli)) = length (cli_accum_buffer cli)"
  by (simp add: patch_dump_buffer_hdr_v4_def Let_def)

lemma length_patch_v5 [simp]:
  "length (cli_accum_buffer (patch_dump_buffer_hdr_v5 ctx cli)) = length (cli_accum_buffer cli)"
  by (simp add: patch_dump_buffer_hdr_v5_def Let_def)

lemma nth_patch_v5_raw:
  assumes "k < length (cli_accum_buffer cli)"
  shows "cli_accum_buffer (patch_dump_buffer_hdr_v5 ctx cli) ! k =
    (let l2 = unat (num_l2_slices (ctx_kbdev ctx)); sc = unat (num_cores (ctx_kbdev ctx));
         bm = cli_bitmap cli; src = ctx_dump_mem ctx; dst = cli_accum_buffer cli in
     if 128 + 64 * l2 \<le> k \<and> k < 128 + 64 * l2 + 64 * sc \<and> (k - (128 + 64 * l2)) mod 64 < 4
     then (if (k - (128 + 64 * l2)) mod 64 = 2 then src ! k AND SHADER_HWCNT_BM bm else src ! k)
     else if 128 \<le> k \<and> k < 128 + 64 * l2 \<and> (k - 128) mod 64 < 4
     then (if (k - 128) mod 64 = 2 then src ! k AND MMU_L2_HWCNT_BM bm else src ! k)
     else if 64 \<le> k \<and> k < 68
     then (if k = 66 then src ! k AND TILER_HWCNT_BM bm else src ! k)
     else if k < 4
     then (if k = 2 then src ! k AND JM_HWCNT_BM bm else src ! k)
     else dst ! k)"
proof -
  define l2 sc bm src dst where "l2 = unat (num_l2_slices (ctx_kbdev ctx))"
    and "sc = unat (num_cores (ctx_kbdev ctx))" and "bm = cli_bitmap cli"
    and "src = ctx_dump_mem ctx" and "dst = cli_accum_buffer cli"
  define d1 where "d1 = copy_and_patch (JM_HWCNT_BM bm) src 0 dst"
  define d2 where "d2 = copy_and_patch (TILER_HWCNT_BM bm) src 256 d1"
  define d3 where "d3 = patch_blocks_v5 l2 (MMU_L2_HWCNT_BM bm) src 512 d2"
  define d4 where "d4 = patch_blocks_v5 sc (SHADER_HWCNT_BM bm) src (512 + l2 * 256) d3"
  have k: "k < length dst" using assms by (simp add: dst_def)
  have res: "cli_accum_buffer (patch_dump_buffer_hdr_v5 ctx cli) = d4"
    by (simp add: patch_dump_buffer_hdr_v5_def Let_def d4_def d3_def d2_def d1_def l2_def sc_def
        bm_def src_def dst_def NR_CNT_PER_BLOCK_def NR_BYTES_PER_CNT_def)
  have n1: "d1 ! k = (if k < 4 then (if k = 2 then src ! k AND JM_HWCNT_BM bm else src ! k)
      else dst ! k)"
    unfolding d1_def by (subst nth_copy_and_patch[OF k]) simp
  have n2: "d2 ! k = (if 64 \<le> k \<and> k < 68
      then (if k = 66 then src ! k AND TILER_HWCNT_BM bm else src ! k) else d1 ! k)"
    unfolding d2_def by (subst nth_copy_and_patch) (simp_all add: k d1_def)
  have n3: "d3 ! k = (if 128 \<le> k \<and> k < 128 + 64 * l2 \<and> (k - 128) mod 64 < 4
      then (if (k - 128) mod 64 = 2 then src ! k AND MMU_L2_HWCNT_BM bm else src ! k)
      else d2 ! k)"
    unfolding d3_def by (subst nth_patch_blocks_v5) (simp_all add: k d2_def d1_def)
  have o: "(512 + l2 * 256) div 4 = 128 + 64 * l2" by simp
  have n4: "d4 ! k = (if 128 + 64 * l2 \<le> k \<and> k < 128 + 64 * l2 + 64 * sc
        \<and> (k - (128 + 64 * l2)) mod 64 < 4
      then (if (k - (128 + 64 * l2)) mod 64 = 2 then src ! k AND SHADER_HWCNT_BM bm else src ! k)
      else d3 ! k)"
    unfolding d4_def by (subst nth_patch_blocks_v5) (simp_all only: o, simp_all add: k d3_def d2_def d1_def)
  show ?thesis
    unfolding res Let_def n4 n3 n2 n1 l2_def sc_def bm_def src_def dst_def ..
qed

lemma mod64_block: "(64 * m + j) mod 64 = j" if "j < 64" for m j :: nat
  using that by simp

lemma patch_v5_blocks:
  assumes B: "B < length (v5_layout (ctx_kbdev ctx))" and j: "j < 64"
    and len: "64 * B + j < length (cli_accum_buffer cli)"
  shows "cli_accum_buffer (patch_dump_buffer_hdr_v5 ctx cli) ! (64 * B + j) =
    hdr_word (v5_layout (ctx_kbdev ctx) ! B) (cli_bitmap cli) j
      (ctx_dump_mem ctx ! (64 * B + j)) (cli_accum_buffer cli ! (64 * B + j))"
proof -
  define l2 sc where "l2 = unat (num_l2_slices (ctx_kbdev ctx))"
    and "sc = unat (num_cores (ctx_kbdev ctx))"
  have B': "B < 2 + l2 + sc" using B by (simp add: length_v5_layout l2_def sc_def)
  have lay: "v5_layout (ctx_kbdev ctx) =
      [BLK_JM, BLK_TILER] @ replicate l2 BLK_MMU_L2 @ replicate sc BLK_SHADER"
    by (simp add: v5_layout_def l2_def sc_def)
  note defs = hdr_word_def NR_BYTES_PER_HDR_def sizeof_u32_def PRFCNT_EN_MASK_OFFSET_def
  note raw = nth_patch_v5_raw[OF len, unfolded Let_def, folded l2_def sc_def]
  note rawk = nth_patch_v5_raw[unfolded Let_def, folded l2_def sc_def]
  consider "B = 0" | "B = 1" | m where "B = 2 + m" "m < l2" | m where "B = 2 + l2 + m" "m < sc"
  proof -
    have "B = 0 \<or> B = 1 \<or> (\<exists>m. B = 2 + m \<and> m < l2) \<or> (\<exists>m. B = 2 + l2 + m \<and> m < sc)"
      using B' by presburger
    then show ?thesis using that by blast
  qed
  then show ?thesis
  proof cases
    case 1
    then have "j < length (cli_accum_buffer cli)" using len by simp
    then show ?thesis using 1 j by (auto simp: rawk lay defs)
  next
    case 2
    then have "64 + j < length (cli_accum_buffer cli)" using len by simp
    then show ?thesis using 2 j by (auto simp: rawk lay defs)
  next
    case 3
    have k: "64 * B + j = 128 + (64 * m + j)" using 3 by simp
    have lt: "64 * m + j < 64 * l2" using 3 j by linarith
    have L: "v5_layout (ctx_kbdev ctx) ! B = BLK_MMU_L2"
      using 3 by (simp add: lay nth_append)
    have len': "128 + (64 * m + j) < length (cli_accum_buffer cli)" using len k by simp
    show ?thesis
      unfolding L k
      by (subst rawk[OF len']) (use lt j mod64_block[OF j, of m] in \<open>auto simp: defs l2_def sc_def\<close>)
  next
    case 4
    have k: "64 * B + j = 128 + 64 * l2 + (64 * m + j)" using 4 by simp
    have lt: "64 * m + j < 64 * sc" using 4 j by linarith
    have L: "v5_layout (ctx_kbdev ctx) ! B = BLK_SHADER"
      using 4 by (simp add: lay nth_append)
    have len': "128 + 64 * l2 + (64 * m + j) < length (cli_accum_buffer cli)"
      using len k by simp
    show ?thesis
      unfolding L k
      by (subst rawk[OF len']) (use lt j mod64_block[OF j, of m] in \<open>auto simp: defs l2_def sc_def\<close>)
  qed
qed

lemma cli_dump_size_patch [simp]:
  "cli_dump_size (patch_dump_buffer_hdr_v4 ctx cli) = cli_dump_size cli"
  "cli_dump_size (patch_dump_buffer_hdr_v5 ctx cli) = cli_dump_size cli"
  by (simp_all add: patch_dump_buffer_hdr_v4_def patch_dump_buffer_hdr_v5_def Let_def)

lemma patch_hdr_blocks:
  assumes "B < length (hwcnt_layout (ctx_kbdev ctx))" and "j < 64"
    and "64 * B + j < length (cli_accum_buffer cli)"
  shows "cli_accum_buffer
      (if BASE_HW_FEATURE_V4 (ctx_kbdev ctx) then patch_dump_buffer_hdr_v4 ctx cli
       else patch_dump_buffer_hdr_v5 ctx cli) ! (64 * B + j) =
    hdr_word (hwcnt_layout (ctx_kbdev ctx) ! B) (cli_bitmap cli) j
      (ctx_dump_mem ctx ! (64 * B + j)) (cli_accum_buffer cli ! (64 * B + j))"
proof (cases "BASE_HW_FEATURE_V4 (ctx_kbdev ctx)")
  case True
  then show ?thesis using assms patch_v4_blocks[of B ctx j cli] by (simp add: hwcnt_layout_def)
next
  case False
  then show ?thesis using assms patch_v5_blocks[of B ctx j cli] by (simp add: hwcnt_layout_def)
qed

lemma accum_client_not_pending:
  "\<not> cli_pending cli \<Longrightarrow>
   cli_accum_buffer (accum_client ctx cli) =
     accum_dump_buffer
       (cli_accum_buffer (if BASE_HW_FEATURE_V4 (ctx_kbdev ctx) then patch_dump_buffer_hdr_v4 ctx cli
          else patch_dump_buffer_hdr_v5 ctx cli))
       (ctx_dump_mem ctx) (cli_dump_size cli)"
  by (simp add: accum_client_def Let_def)

lemma accum_client_hdr_word:
  assumes np: "\<not> cli_pending cli"
    and len: "length (cli_accum_buffer cli) * 4 = cli_dump_size cli"
    and B: "B < length (hwcnt_layout (ctx_kbdev ctx))" and j: "j < 4"
    and k: "64 * B + j < length (cli_accum_buffer cli)"
  shows "cli_accum_buffer (accum_client ctx cli) ! (64 * B + j) =
    hdr_word (hwcnt_layout (ctx_kbdev ctx) ! B) (cli_bitmap cli) j
      (ctx_dump_mem ctx ! (64 * B + j)) (cli_accum_buffer cli ! (64 * B + j))"
proof -
  define p where "p = cli_accum_buffer (if BASE_HW_FEATURE_V4 (ctx_kbdev ctx)
       then patch_dump_buffer_hdr_v4 ctx cli else patch_dump_buffer_hdr_v5 ctx cli)"
  have lp: "length p = length (cli_accum_buffer cli)" by (simp add: p_def)
  have m: "(64 * B + j) mod 64 = j" using j by simp
  have "cli_accum_buffer (accum_client ctx cli) ! (64 * B + j) =
      accum_dump_buffer p (ctx_dump_mem ctx) (cli_dump_size cli) ! (64 * B + j)"
    by (simp add: accum_client_not_pending[OF np] p_def)
  also have "\<dots> = p ! (64 * B + j)"
    using nth_accum_dump_buffer[of p "cli_dump_size cli" "64 * B + j" "ctx_dump_mem ctx"]
      len lp k j m by simp
  also have "\<dots> = hdr_word (hwcnt_layout (ctx_kbdev ctx) ! B) (cli_bitmap cli) j
      (ctx_dump_mem ctx ! (64 * B + j)) (cli_accum_buffer cli ! (64 * B + j))"
    unfolding p_def using j k by (intro patch_hdr_blocks[OF B]) simp_all
  finally show ?thesis .
qed

text \<open>
  Claim C4, as amended. For a client that is not pending, whose accumulation buffer and
  the dump buffer hold exactly the blocks of the active layout, and for every block \<open>B\<close>
  of the layout that belongs to one of the four categories: after the pass of
  \<^verbatim>\<open>accum_clients\<close> over the client (header copy and patch, then accumulation), the four
  words of the block's header in the accumulation buffer are those of the dump buffer,
  except that the enable mask (the word at byte 8) is the hardware-written mask ANDed
  with the client's bitmap of the block's category; when that bitmap is zero the mask is
  zero, whatever the other clients asked for. The header of a block with no category
  (the reserved block 6 of a legacy core group) is left as the accumulation buffer had it.
\<close>

theorem accum_client_patches_headers:
  assumes "\<not> cli_pending cli"
    and "cli_dump_size cli
          = NR_CNT_PER_BLOCK * NR_BYTES_PER_CNT * length (hwcnt_layout (ctx_kbdev ctx))"
    and "length (cli_accum_buffer cli) * NR_BYTES_PER_CNT = cli_dump_size cli"
    and "length (ctx_dump_mem ctx) = length (cli_accum_buffer cli)"
    and "B < length (hwcnt_layout (ctx_kbdev ctx))"
  shows "case block_bm (hwcnt_layout (ctx_kbdev ctx) ! B) (cli_bitmap cli) of
      Some m \<Rightarrow>
        (\<forall>j < NR_BYTES_PER_HDR div sizeof_u32.
           cli_accum_buffer (accum_client ctx cli) ! (NR_CNT_PER_BLOCK * B + j) =
             (if j = PRFCNT_EN_MASK_OFFSET div sizeof_u32
              then ctx_dump_mem ctx ! (NR_CNT_PER_BLOCK * B + j) AND m
              else ctx_dump_mem ctx ! (NR_CNT_PER_BLOCK * B + j)))
        \<and> (m = 0 \<longrightarrow>
             cli_accum_buffer (accum_client ctx cli)
               ! (NR_CNT_PER_BLOCK * B + PRFCNT_EN_MASK_OFFSET div sizeof_u32) = 0)
    | None \<Rightarrow>
        (\<forall>j < NR_BYTES_PER_HDR div sizeof_u32.
           cli_accum_buffer (accum_client ctx cli) ! (NR_CNT_PER_BLOCK * B + j) =
             cli_accum_buffer cli ! (NR_CNT_PER_BLOCK * B + j))"
proof -
  have len4: "length (cli_accum_buffer cli) * 4 = cli_dump_size cli"
    using assms(3) by (simp add: NR_BYTES_PER_CNT_def)
  have len: "length (cli_accum_buffer cli) = 64 * length (hwcnt_layout (ctx_kbdev ctx))"
    using assms(2) len4 by (simp add: NR_CNT_PER_BLOCK_def NR_BYTES_PER_CNT_def)
  have k: "64 * B + j < length (cli_accum_buffer cli)" if "j < 4" for j
  proof -
    have "64 * B + 64 \<le> 64 * length (hwcnt_layout (ctx_kbdev ctx))" using assms(5) by simp
    then show ?thesis using that len by simp
  qed
  have w: "cli_accum_buffer (accum_client ctx cli) ! (64 * B + j) =
      hdr_word (hwcnt_layout (ctx_kbdev ctx) ! B) (cli_bitmap cli) j
        (ctx_dump_mem ctx ! (64 * B + j)) (cli_accum_buffer cli ! (64 * B + j))"
    if "j < 4" for j
    using accum_client_hdr_word[OF assms(1) len4 assms(5) that k[OF that]] .
  show ?thesis
  proof (cases "block_bm (hwcnt_layout (ctx_kbdev ctx) ! B) (cli_bitmap cli)")
    case None
    then show ?thesis
      using w by (simp add: hdr_word_def NR_CNT_PER_BLOCK_def NR_BYTES_PER_HDR_def sizeof_u32_def)
  next
    case (Some m)
    have "cli_accum_buffer (accum_client ctx cli) ! (64 * B + j) =
        (if j = 2 then ctx_dump_mem ctx ! (64 * B + j) AND m else ctx_dump_mem ctx ! (64 * B + j))"
      if "j < 4" for j
      using w[OF that] that Some
      by (simp add: hdr_word_def NR_BYTES_PER_HDR_def sizeof_u32_def PRFCNT_EN_MASK_OFFSET_def)
    then have h: "\<forall>j < 4. cli_accum_buffer (accum_client ctx cli) ! (64 * B + j) =
        (if j = 2 then ctx_dump_mem ctx ! (64 * B + j) AND m else ctx_dump_mem ctx ! (64 * B + j))"
      by blast
    from h[rule_format, of 2]
    have z: "m = 0 \<Longrightarrow> cli_accum_buffer (accum_client ctx cli) ! (64 * B + 2) = 0"
      by simp
    show ?thesis
      using Some h z
      by (simp add: NR_CNT_PER_BLOCK_def NR_BYTES_PER_HDR_def sizeof_u32_def
          PRFCNT_EN_MASK_OFFSET_def)
  qed
qed

theorem accum_client_patches_headers_witness:
  "cli_accum_buffer (accum_client (ctx_ones dev_v5 320) (cli_zeros shader_only 320)) ! (64 * 1 + 2) = 0
   \<and> cli_accum_buffer (accum_client (ctx_ones dev_v5 320) (cli_zeros shader_only 320)) ! (64 * 1 + 1) = 1"
proof -
  have lay: "hwcnt_layout (ctx_kbdev (ctx_ones dev_v5 320)) =
      [BLK_JM, BLK_TILER, BLK_MMU_L2, BLK_SHADER, BLK_SHADER]"
  proof -
    have "replicate 2 BLK_SHADER = [BLK_SHADER, BLK_SHADER]" by (simp add: numeral_2_eq_2)
    then show ?thesis
      by (simp add: ctx_ones_def kbase_vinstr_init_def dev_v5_def hwcnt_layout_def v5_layout_def)
  qed
  have "case block_bm (hwcnt_layout (ctx_kbdev (ctx_ones dev_v5 320)) ! 1)
          (cli_bitmap (cli_zeros shader_only 320)) of
      Some m \<Rightarrow>
        (\<forall>j < NR_BYTES_PER_HDR div sizeof_u32.
           cli_accum_buffer (accum_client (ctx_ones dev_v5 320) (cli_zeros shader_only 320))
               ! (NR_CNT_PER_BLOCK * 1 + j) =
             (if j = PRFCNT_EN_MASK_OFFSET div sizeof_u32
              then ctx_dump_mem (ctx_ones dev_v5 320) ! (NR_CNT_PER_BLOCK * 1 + j) AND m
              else ctx_dump_mem (ctx_ones dev_v5 320) ! (NR_CNT_PER_BLOCK * 1 + j)))
        \<and> (m = 0 \<longrightarrow>
             cli_accum_buffer (accum_client (ctx_ones dev_v5 320) (cli_zeros shader_only 320))
               ! (NR_CNT_PER_BLOCK * 1 + PRFCNT_EN_MASK_OFFSET div sizeof_u32) = 0)
    | None \<Rightarrow>
        (\<forall>j < NR_BYTES_PER_HDR div sizeof_u32.
           cli_accum_buffer (accum_client (ctx_ones dev_v5 320) (cli_zeros shader_only 320))
               ! (NR_CNT_PER_BLOCK * 1 + j) =
             cli_accum_buffer (cli_zeros shader_only 320) ! (NR_CNT_PER_BLOCK * 1 + j))"
    by (rule accum_client_patches_headers)
       (simp_all add: lay, simp_all add: cli_zeros_def ctx_ones_def NR_CNT_PER_BLOCK_def
          NR_BYTES_PER_CNT_def)
  then have a: "\<forall>j < 4.
      cli_accum_buffer (accum_client (ctx_ones dev_v5 320) (cli_zeros shader_only 320)) ! (64 + j) =
        (if j = 2 then ctx_dump_mem (ctx_ones dev_v5 320) ! (64 + j) AND 0
         else ctx_dump_mem (ctx_ones dev_v5 320) ! (64 + j))"
    by (simp add: lay cli_zeros_def shader_only_def NR_CNT_PER_BLOCK_def NR_BYTES_PER_HDR_def
        sizeof_u32_def PRFCNT_EN_MASK_OFFSET_def)
  from a[rule_format, of 2] a[rule_format, of 1] show ?thesis
    by (simp add: ctx_ones_def)
qed

text \<open>
  The claim C4 as it is written fails on the legacy layout: block 6 of a core group is a
  block of the layout, and its header is not copied. Here the dump buffer holds 1 in the
  first header word of block 6 and the accumulation buffer keeps its 0.
\<close>

theorem reserved_header_not_copied:
  "6 < length (hwcnt_layout (ctx_kbdev (ctx_ones dev_v4 512)))
   \<and> \<not> cli_pending (cli_zeros all_counters 512)
   \<and> cli_accum_buffer
        (patch_dump_buffer_hdr_v4 (ctx_ones dev_v4 512) (cli_zeros all_counters 512)) ! (64 * 6) = 0
   \<and> cli_accum_buffer (accum_client (ctx_ones dev_v4 512) (cli_zeros all_counters 512)) ! (64 * 6) = 0
   \<and> ctx_dump_mem (ctx_ones dev_v4 512) ! (64 * 6) = 1"
proof -
  have dev: "ctx_kbdev (ctx_ones dev_v4 512) = dev_v4"
    by (simp add: ctx_ones_def kbase_vinstr_init_def)
  have lay: "hwcnt_layout dev_v4 = v4_group_layout"
    by (simp add: dev_v4_def hwcnt_layout_def v4_layout_def)
  have B: "6 < length (hwcnt_layout (ctx_kbdev (ctx_ones dev_v4 512)))"
    by (simp add: dev lay v4_group_layout_def)
  have np: "\<not> cli_pending (cli_zeros all_counters 512)" by (simp add: cli_zeros_def)
  have v4: "BASE_HW_FEATURE_V4 dev_v4" by (simp add: dev_v4_def)
  have r: "block_bm (hwcnt_layout dev_v4 ! 6) bm = None" for bm
    by (simp add: lay v4_group_layout_def)
  have z: "cli_accum_buffer (cli_zeros all_counters 512) ! (64 * 6 + 0) = 0"
    "64 * 6 + 0 < length (cli_accum_buffer (cli_zeros all_counters 512))"
    "length (cli_accum_buffer (cli_zeros all_counters 512)) * 4
       = cli_dump_size (cli_zeros all_counters 512)"
    by (simp_all add: cli_zeros_def)
  have p: "cli_accum_buffer
      (patch_dump_buffer_hdr_v4 (ctx_ones dev_v4 512) (cli_zeros all_counters 512)) ! (64 * 6 + 0) = 0"
    using patch_hdr_blocks[OF B _ z(2)] v4 z(1)
    by (simp add: dev hdr_word_def r)
  have a: "cli_accum_buffer (accum_client (ctx_ones dev_v4 512) (cli_zeros all_counters 512))
      ! (64 * 6 + 0) = 0"
    using accum_client_hdr_word[OF np z(3) B _ z(2)] z(1)
    by (simp add: dev hdr_word_def r)
  show ?thesis using B np p a by (simp add: ctx_ones_def)
qed

subsection \<open>The size of a dump and the legacy core group\<close>

lemma dump_size_mod:
  "kbase_vinstr_dump_size ctx =
     (if BASE_HW_FEATURE_V4 (ctx_kbdev ctx)
      then (unat (num_core_groups (ctx_kbdev ctx)) * 2048) mod 2 ^ 32
      else ((2 + unat (num_l2_slices (ctx_kbdev ctx)) + unat (num_cores (ctx_kbdev ctx))) * 256)
             mod 2 ^ 32)"
  by (simp add: kbase_vinstr_dump_size_def Let_def NR_CNT_BLOCKS_PER_GROUP_def
      NR_CNT_PER_BLOCK_def NR_BYTES_PER_CNT_def unat_word_ariths mod_simps mult.commute
      add.assoc)

text \<open>
  Claim C8. \<^verbatim>\<open>kbase_vinstr_dump_size\<close> reads the topology of the device and returns, on
  the legacy layout, core groups \<open>\<times>\<close> 8 blocks \<open>\<times>\<close> 64 counters \<open>\<times>\<close> 4 bytes, and on the current
  layout (1 job manager + 1 tiler + slices of the memory unit + shader cores) blocks of
  64 counters of 4 bytes: 256 bytes for each block of the layout. The value is computed
  from the device at each call (the size stored in the context is not read). The
  products are formed in \<^verbatim>\<open>u32\<close>; the statement is for topologies whose dump fits 32 bits.
\<close>

theorem dump_size_formula:
  assumes "BASE_HW_FEATURE_V4 (ctx_kbdev ctx) \<Longrightarrow>
      unat (num_core_groups (ctx_kbdev ctx)) * NR_CNT_BLOCKS_PER_GROUP * NR_CNT_PER_BLOCK
        * NR_BYTES_PER_CNT < 2 ^ 32"
    and "\<not> BASE_HW_FEATURE_V4 (ctx_kbdev ctx) \<Longrightarrow>
      (2 + unat (num_l2_slices (ctx_kbdev ctx)) + unat (num_cores (ctx_kbdev ctx)))
        * NR_CNT_PER_BLOCK * NR_BYTES_PER_CNT < 2 ^ 32"
  shows "kbase_vinstr_dump_size ctx =
     (if BASE_HW_FEATURE_V4 (ctx_kbdev ctx)
      then unat (num_core_groups (ctx_kbdev ctx)) * NR_CNT_BLOCKS_PER_GROUP * NR_CNT_PER_BLOCK
             * NR_BYTES_PER_CNT
      else (1 + 1 + unat (num_l2_slices (ctx_kbdev ctx)) + unat (num_cores (ctx_kbdev ctx)))
             * NR_CNT_PER_BLOCK * NR_BYTES_PER_CNT)
    \<and> kbase_vinstr_dump_size ctx =
        length (hwcnt_layout (ctx_kbdev ctx)) * (NR_CNT_PER_BLOCK * NR_BYTES_PER_CNT)
    \<and> kbase_vinstr_dump_size (ctx\<lparr>ctx_dump_size := cached\<rparr>) = kbase_vinstr_dump_size ctx"
proof (cases "BASE_HW_FEATURE_V4 (ctx_kbdev ctx)")
  case True
  then have "unat (num_core_groups (ctx_kbdev ctx)) * 2048 < 2 ^ 32"
    using assms(1) by (simp add: NR_CNT_BLOCKS_PER_GROUP_def NR_CNT_PER_BLOCK_def NR_BYTES_PER_CNT_def)
  then show ?thesis using True
    by (simp add: dump_size_mod hwcnt_layout_def length_v4_layout NR_CNT_BLOCKS_PER_GROUP_def
        NR_CNT_PER_BLOCK_def NR_BYTES_PER_CNT_def)
next
  case False
  then have "(2 + unat (num_l2_slices (ctx_kbdev ctx)) + unat (num_cores (ctx_kbdev ctx))) * 256
      < 2 ^ 32"
    using assms(2) by (simp add: NR_CNT_PER_BLOCK_def NR_BYTES_PER_CNT_def)
  then show ?thesis using False
    by (simp add: dump_size_mod hwcnt_layout_def length_v5_layout
        NR_CNT_PER_BLOCK_def NR_BYTES_PER_CNT_def)
qed

theorem dump_size_formula_witness:
  "kbase_vinstr_dump_size (kbase_vinstr_init dev_v4) = 2048
   \<and> kbase_vinstr_dump_size (kbase_vinstr_init dev_v5) = 1280"
  using dump_size_formula[of "kbase_vinstr_init dev_v4" 0]
    dump_size_formula[of "kbase_vinstr_init dev_v5" 0]
  by (simp add: kbase_vinstr_init_def dev_v4_def dev_v5_def NR_CNT_BLOCKS_PER_GROUP_def
      NR_CNT_PER_BLOCK_def NR_BYTES_PER_CNT_def)

text \<open>
  Claim C9, as amended. A core group of the legacy layout has 8 blocks of 256 bytes: the
  shader cores at the blocks 0 to 3, the tiler at block 4, the memory unit at block 5,
  one reserved block at 6 and the job manager at block 7, at the constant offsets
  \<open>block \<times> 256\<close>. The header walk of the group \<open>i\<close> copies and patches the headers of the
  seven blocks with a category, each with the bitmap of its category, and leaves the
  reserved block and every counter as they were.
\<close>

theorem v4_group_walk:
  "NR_CNT_BLOCKS_PER_GROUP = 8
   \<and> v4_group_layout = replicate 4 BLK_SHADER @ [BLK_TILER, BLK_MMU_L2, BLK_RESERVED, BLK_JM]
   \<and> [SC0_BASE, SC1_BASE, SC2_BASE, SC3_BASE, TILER_BASE, MMU_L2_BASE, JM_BASE]
       = map (\<lambda>b. b * (NR_CNT_PER_BLOCK * NR_BYTES_PER_CNT)) [0, 1, 2, 3, 4, 5, 7]
   \<and> (\<forall>b j. b < NR_CNT_BLOCKS_PER_GROUP \<longrightarrow> j < NR_CNT_PER_BLOCK \<longrightarrow>
          NR_CNT_BLOCKS_PER_GROUP * NR_CNT_PER_BLOCK * i + NR_CNT_PER_BLOCK * b + j < length dst \<longrightarrow>
          patch_v4_group bm src i dst
              ! (NR_CNT_BLOCKS_PER_GROUP * NR_CNT_PER_BLOCK * i + NR_CNT_PER_BLOCK * b + j) =
            hdr_word (v4_group_layout ! b) bm j
              (src ! (NR_CNT_BLOCKS_PER_GROUP * NR_CNT_PER_BLOCK * i + NR_CNT_PER_BLOCK * b + j))
              (dst ! (NR_CNT_BLOCKS_PER_GROUP * NR_CNT_PER_BLOCK * i + NR_CNT_PER_BLOCK * b + j)))"
proof -
  have "replicate 4 BLK_SHADER = [BLK_SHADER, BLK_SHADER, BLK_SHADER, BLK_SHADER]"
    by (simp add: numeral_Bit0 numeral_Bit1 replicate_add)
  then show ?thesis
    using nth_patch_v4_group_in[of _ _ i dst bm src]
    by (simp add: NR_CNT_BLOCKS_PER_GROUP_def NR_CNT_PER_BLOCK_def NR_BYTES_PER_CNT_def
        v4_group_layout_def SC0_BASE_def SC1_BASE_def SC2_BASE_def SC3_BASE_def TILER_BASE_def
        MMU_L2_BASE_def JM_BASE_def)
qed


theorem v4_group_walk_witness:
  "patch_v4_group jm_only (replicate 512 0xFF) 0 (replicate 512 0) ! (64 * 7 + 2) = 0xF
   \<and> patch_v4_group jm_only (replicate 512 0xFF) 0 (replicate 512 0) ! (64 * 4 + 2) = 0
   \<and> patch_v4_group jm_only (replicate 512 0xFF) 0 (replicate 512 0) ! (64 * 4 + 3) = 0xFF"
proof -
  have a: "\<forall>b j. b < 8 \<longrightarrow> j < 64 \<longrightarrow>
      patch_v4_group jm_only (replicate 512 0xFF) 0 (replicate 512 0) ! (64 * b + j) =
        hdr_word (v4_group_layout ! b) jm_only j 0xFF 0"
    using v4_group_walk[of 0 "replicate 512 0" jm_only "replicate 512 0xFF"]
    by (simp add: NR_CNT_BLOCKS_PER_GROUP_def NR_CNT_PER_BLOCK_def)
  from a[rule_format, of 7 2] a[rule_format, of 4 2] a[rule_format, of 4 3]
  show ?thesis
    by (simp add: v4_group_layout_def hdr_word_def jm_only_def NR_BYTES_PER_HDR_def
        sizeof_u32_def PRFCNT_EN_MASK_OFFSET_def)
qed

text \<open>
  The composition the claim C9 gives (4 shader-core, 1 tiler, 1 memory-unit, 2 reserved,
  1 job-manager) has 9 blocks, not 8, and puts a reserved block at index 7 and the job
  manager at index 8, outside the group; the walk patches block 7 with the job-manager
  bitmap.
\<close>

theorem spec_v4_group_composition_counterexample:
  "length spec_v4_group_composition \<noteq> NR_CNT_BLOCKS_PER_GROUP
   \<and> length spec_v4_group_composition = 9
   \<and> spec_v4_group_composition ! 6 = BLK_RESERVED
   \<and> spec_v4_group_composition ! 7 = BLK_RESERVED
   \<and> spec_v4_group_composition ! 8 = BLK_JM
   \<and> JM_BASE = 7 * (NR_CNT_PER_BLOCK * NR_BYTES_PER_CNT)
   \<and> patch_v4_group jm_only (replicate 512 0xFF) 0 (replicate 512 0) ! (64 * 7 + 2) = 0xF"
proof -
  have "patch_v4_group jm_only (replicate 512 0xFF) 0 (replicate 512 0) ! (512 * 0 + 64 * 7 + 2)
      = hdr_word (v4_group_layout ! 7) jm_only 2 0xFF 0"
    by (subst nth_patch_v4_group_in) simp_all
  moreover have comp: "spec_v4_group_composition =
      [BLK_SHADER, BLK_SHADER, BLK_SHADER, BLK_SHADER, BLK_TILER, BLK_MMU_L2,
       BLK_RESERVED, BLK_RESERVED, BLK_JM]"
    unfolding spec_v4_group_composition_def by (simp add: numeral_eq_Suc)
  ultimately show ?thesis
    unfolding comp
    by (simp add: NR_CNT_BLOCKS_PER_GROUP_def JM_BASE_def
        NR_CNT_PER_BLOCK_def NR_BYTES_PER_CNT_def v4_group_layout_def hdr_word_def jm_only_def
        NR_BYTES_PER_HDR_def sizeof_u32_def PRFCNT_EN_MASK_OFFSET_def)
qed

subsection \<open>Bitmaps and the trace of external calls\<close>

lemma hwcnt_bitmap_set_eq [simp]: "hwcnt_bitmap_set dst src = src"
  by (simp add: hwcnt_bitmap_set_def)

lemma bitmap4_eqI:
  "JM_HWCNT_BM a = JM_HWCNT_BM b \<Longrightarrow> TILER_HWCNT_BM a = TILER_HWCNT_BM b \<Longrightarrow>
   SHADER_HWCNT_BM a = SHADER_HWCNT_BM b \<Longrightarrow> MMU_L2_HWCNT_BM a = MMU_L2_HWCNT_BM b \<Longrightarrow>
   a = b" for a b :: bitmap4
  by simp

lemma union_fields [simp]:
  "JM_HWCNT_BM (hwcnt_bitmap_union a b) = JM_HWCNT_BM a OR JM_HWCNT_BM b"
  "TILER_HWCNT_BM (hwcnt_bitmap_union a b) = TILER_HWCNT_BM a OR TILER_HWCNT_BM b"
  "SHADER_HWCNT_BM (hwcnt_bitmap_union a b) = SHADER_HWCNT_BM a OR SHADER_HWCNT_BM b"
  "MMU_L2_HWCNT_BM (hwcnt_bitmap_union a b) = MMU_L2_HWCNT_BM a OR MMU_L2_HWCNT_BM b"
  by (simp_all add: hwcnt_bitmap_union_def)

lemma clients_union_Nil [simp]: "clients_union [] = zerobitmap"
  by (simp add: clients_union_def or_all_def zerobitmap_def)

lemma clients_union_Cons:
  "clients_union ((p, c) # cs) = hwcnt_bitmap_union (cli_bitmap c) (clients_union cs)"
  by (rule bitmap4_eqI) (simp_all add: clients_union_def or_all_def)

lemma fold_union:
  "fold (\<lambda>(p, iter) bm. hwcnt_bitmap_union bm (cli_bitmap iter)) cs bm
     = hwcnt_bitmap_union bm (clients_union cs)"
proof (induction cs arbitrary: bm)
  case Nil
  show ?case by (rule bitmap4_eqI) (simp_all add: zerobitmap_def)
next
  case (Cons x cs)
  obtain p c where x: "x = (p, c)" by (cases x)
  show ?case
    unfolding x by (rule bitmap4_eqI) (simp_all add: Cons.IH clients_union_Cons ac_simps)
qed

lemma union_zero [simp]: "hwcnt_bitmap_union zerobitmap b = b"
  by (rule bitmap4_eqI) (simp_all add: zerobitmap_def)

subsection \<open>The trace\<close>

lemma live_kctx_simps [simp]:
  "live_kctx [] = 0"
  "live_kctx (CreateContext # t) = live_kctx t + 1"
  "live_kctx (DestroyContext # t) = live_kctx t - 1"
  "e \<noteq> CreateContext \<Longrightarrow> e \<noteq> DestroyContext \<Longrightarrow> live_kctx (e # t) = live_kctx t"
  by (simp_all add: live_kctx_def)

lemma live_vmap_simps [simp]:
  "live_vmap [] = 0"
  "live_vmap (Vmap # t) = live_vmap t + 1"
  "live_vmap (Vunmap # t) = live_vmap t - 1"
  "e \<noteq> Vmap \<Longrightarrow> e \<noteq> Vunmap \<Longrightarrow> live_vmap (e # t) = live_vmap t"
  by (simp_all add: live_vmap_def)

subsection \<open>Creating and destroying the hardware context\<close>

lemma create_vinstr_kctx_fst:
  "fst (create_vinstr_kctx env ctx) < 0 \<longleftrightarrow> \<not> create_ok env"
  by (auto simp: create_vinstr_kctx_def map_kernel_dump_buffer_def enable_hwcnt_def create_ok_def
      Let_def ENOMEM_def NULL_def split: option.splits prod.splits if_splits)

lemma create_vinstr_kctx_frame [simp]:
  "ctx_clients (snd (create_vinstr_kctx env ctx)) = ctx_clients ctx"
  "ctx_nclients (snd (create_vinstr_kctx env ctx)) = ctx_nclients ctx"
  "ctx_bitmap (snd (create_vinstr_kctx env ctx)) = ctx_bitmap ctx"
  "ctx_reprogram (snd (create_vinstr_kctx env ctx)) = ctx_reprogram ctx"
  "ctx_kbdev (snd (create_vinstr_kctx env ctx)) = ctx_kbdev ctx"
  by (auto simp: create_vinstr_kctx_def map_kernel_dump_buffer_def enable_hwcnt_def
      unmap_kernel_dump_buffer_def Let_def split: option.splits prod.splits if_splits)

lemma create_vinstr_kctx_trace:
  "ctx_trace (snd (create_vinstr_kctx env ctx)) =
     (if create_ok env
      then HwcntEnable (ctx_bitmap ctx) # Vmap # MemAlloc # CreateContext # ctx_trace ctx
      else if kbase_create_context env = NULL then ctx_trace ctx
      else if kbase_mem_alloc env = None then DestroyContext # CreateContext # ctx_trace ctx
      else if kbase_vmap env = NULL
      then DestroyContext # MemFree # MemAlloc # CreateContext # ctx_trace ctx
      else DestroyContext # MemFree # Vunmap # Vmap # MemAlloc # CreateContext # ctx_trace ctx)"
  by (auto simp: create_vinstr_kctx_def map_kernel_dump_buffer_def enable_hwcnt_def
      unmap_kernel_dump_buffer_def create_ok_def Let_def ENOMEM_def
      split: option.splits prod.splits if_splits)

lemma create_vinstr_kctx_live:
  "live_kctx (ctx_trace (snd (create_vinstr_kctx env ctx)))
     = live_kctx (ctx_trace ctx) + (if create_ok env then 1 else 0)"
  "live_vmap (ctx_trace (snd (create_vinstr_kctx env ctx)))
     = live_vmap (ctx_trace ctx) + (if create_ok env then 1 else 0)"
  by (simp_all add: create_vinstr_kctx_trace)

lemma destroy_vinstr_kctx_frame [simp]:
  "ctx_clients (destroy_vinstr_kctx ctx) = ctx_clients ctx"
  "ctx_nclients (destroy_vinstr_kctx ctx) = ctx_nclients ctx"
  "ctx_bitmap (destroy_vinstr_kctx ctx) = ctx_bitmap ctx"
  "ctx_reprogram (destroy_vinstr_kctx ctx) = ctx_reprogram ctx"
  "ctx_kbdev (destroy_vinstr_kctx ctx) = ctx_kbdev ctx"
  "ctx_trace (destroy_vinstr_kctx ctx)
     = DestroyContext # MemFree # Vunmap # HwcntDisable # ctx_trace ctx"
  by (simp_all add: destroy_vinstr_kctx_def disable_hwcnt_def unmap_kernel_dump_buffer_def Let_def)

lemma create_vinstr_kctx_result:
  assumes "create_vinstr_kctx env ctx = (err, ctx')"
  shows "(err < 0) = (\<not> create_ok env)"
    and "ctx_clients ctx' = ctx_clients ctx" and "ctx_nclients ctx' = ctx_nclients ctx"
    and "ctx_bitmap ctx' = ctx_bitmap ctx" and "ctx_reprogram ctx' = ctx_reprogram ctx"
    and "ctx_kbdev ctx' = ctx_kbdev ctx"
    and "ctx_trace ctx' = ctx_trace (snd (create_vinstr_kctx env ctx))"
  using assms create_vinstr_kctx_fst[of env ctx] create_vinstr_kctx_frame[of env ctx]
  by simp_all

lemmas attach_unfold =
  kbase_vinstr_attach_client_def map_client_accum_buffer_def Let_def case_prod_beta
  create_vinstr_kctx_fst create_vinstr_kctx_trace

lemma attach_fst:
  "fst (kbase_vinstr_attach_client env ctx kern buf bm)
     = (if attach_ok env ctx then kmalloc_cli env else NULL)"
  by (auto simp: attach_unfold attach_ok_def split: sum.splits option.splits if_splits)

lemma attach_frame [simp]:
  "ctx_kbdev (snd (kbase_vinstr_attach_client env ctx kern buf bm)) = ctx_kbdev ctx"
  by (auto simp: attach_unfold split: sum.splits option.splits if_splits)

lemma attach_ok_clients:
  assumes "attach_ok env ctx"
  shows "\<exists>c. ctx_clients (snd (kbase_vinstr_attach_client env ctx kern buf bm))
            = (kmalloc_cli env, c) # ctx_clients ctx
          \<and> cli_bitmap c = bm \<and> cli_pending c = (ctx_nclients ctx \<noteq> 0) \<and> accum_zero c
          \<and> cli_kernel c = kern"
  using assms
  by (auto simp: attach_unfold attach_ok_def accum_zero_def
      split: sum.splits option.splits if_splits)

lemma attach_ok_fields:
  assumes "attach_ok env ctx"
  shows "ctx_nclients (snd (kbase_vinstr_attach_client env ctx kern buf bm)) = ctx_nclients ctx + 1"
    and "ctx_bitmap (snd (kbase_vinstr_attach_client env ctx kern buf bm))
          = (if ctx_nclients ctx = 0 then bm else hwcnt_bitmap_union (ctx_bitmap ctx) bm)"
    and "ctx_reprogram (snd (kbase_vinstr_attach_client env ctx kern buf bm))
          = (ctx_nclients ctx \<noteq> 0)"
    and "ctx_trace (snd (kbase_vinstr_attach_client env ctx kern buf bm))
          = (if ctx_nclients ctx = 0
             then HwcntEnable bm # Vmap # MemAlloc # CreateContext # ctx_trace ctx
             else ctx_trace ctx)"
  using assms
  by (auto simp: attach_unfold attach_ok_def split: sum.splits option.splits if_splits)

lemma attach_fail_fields:
  assumes "\<not> attach_ok env ctx"
  shows "ctx_clients (snd (kbase_vinstr_attach_client env ctx kern buf bm)) = ctx_clients ctx"
    and "ctx_nclients (snd (kbase_vinstr_attach_client env ctx kern buf bm)) = ctx_nclients ctx"
    and "live_kctx (ctx_trace (snd (kbase_vinstr_attach_client env ctx kern buf bm)))
          = live_kctx (ctx_trace ctx)"
    and "live_vmap (ctx_trace (snd (kbase_vinstr_attach_client env ctx kern buf bm)))
          = live_vmap (ctx_trace ctx)"
    and "ctx_bitmap (snd (kbase_vinstr_attach_client env ctx kern buf bm))
          = (if kmalloc_cli env = NULL then ctx_bitmap ctx
             else if ctx_nclients ctx = 0 then bm
             else hwcnt_bitmap_union (ctx_bitmap ctx) bm)"
    and "ctx_reprogram (snd (kbase_vinstr_attach_client env ctx kern buf bm))
          = (if kmalloc_cli env = NULL then ctx_reprogram ctx
             else if ctx_nclients ctx = 0 then \<not> create_ok env
             else True)"
  using assms
  by (auto simp: attach_unfold attach_ok_def split: sum.splits option.splits if_splits)

lemma attach_trace:
  "ctx_trace (snd (kbase_vinstr_attach_client env ctx kern buf bm)) =
     (if kmalloc_cli env = NULL \<or> ctx_nclients ctx \<noteq> 0 then ctx_trace ctx
      else
        (if create_ok env \<and> \<not> kzalloc_accum env
         then [DestroyContext, MemFree, Vunmap, HwcntDisable] else [])
        @ (if create_ok env
           then HwcntEnable bm # Vmap # MemAlloc # CreateContext # ctx_trace ctx
           else if kbase_create_context env = NULL then ctx_trace ctx
           else if kbase_mem_alloc env = None then DestroyContext # CreateContext # ctx_trace ctx
           else if kbase_vmap env = NULL
           then DestroyContext # MemFree # MemAlloc # CreateContext # ctx_trace ctx
           else DestroyContext # MemFree # Vunmap # Vmap # MemAlloc # CreateContext # ctx_trace ctx))"
  by (auto simp: attach_unfold split: sum.splits option.splits if_splits)

subsection \<open>Detaching\<close>

lemma list_del_absent: "p \<notin> set (map fst xs) \<Longrightarrow> list_del p xs = xs"
  by (induction xs) auto

lemma length_list_del:
  "length (list_del p xs) = (if p \<in> set (map fst xs) then length xs - 1 else length xs)"
proof (induction p xs rule: list_del.induct)
  case (1 p)
  show ?case by simp
next
  case (2 p q c xs)
  have "x \<in> set xs \<Longrightarrow> Suc (length xs - Suc 0) = length xs" for x
    by (cases xs) auto
  with 2 show ?case by auto
qed

lemma set_list_del: "set (list_del p xs) \<subseteq> set xs"
  by (induction p xs rule: list_del.induct) auto

lemma map_of_map_snd:
  "map_of (map (\<lambda>(p, iter). (p, f iter)) xs) k = map_option f (map_of xs k)"
  by (induction xs) auto

lemma detach_clients:
  "ctx_clients (kbase_vinstr_detach_client ctx cli) = list_del cli (ctx_clients ctx)"
  by (simp add: kbase_vinstr_detach_client_def Let_def list_del_absent)

lemma detach_bitmap:
  "ctx_bitmap (kbase_vinstr_detach_client ctx cli)
     = clients_union (ctx_clients (kbase_vinstr_detach_client ctx cli))"
  by (simp add: detach_clients)
     (simp add: kbase_vinstr_detach_client_def Let_def fold_union list_del_absent)

lemma detach_fields:
  "ctx_nclients (kbase_vinstr_detach_client ctx cli)
     = (if cli \<in> set (map fst (ctx_clients ctx)) then ctx_nclients ctx - 1 else ctx_nclients ctx)"
  "ctx_reprogram (kbase_vinstr_detach_client ctx cli)
     = (cli \<in> set (map fst (ctx_clients ctx)) \<or> ctx_reprogram ctx)"
  "ctx_trace (kbase_vinstr_detach_client ctx cli)
     = (if cli \<in> set (map fst (ctx_clients ctx)) \<and> ctx_nclients ctx - 1 = 0
        then DestroyContext # MemFree # Vunmap # HwcntDisable # ctx_trace ctx
        else ctx_trace ctx)"
  "ctx_kbdev (kbase_vinstr_detach_client ctx cli) = ctx_kbdev ctx"
  by (simp_all add: kbase_vinstr_detach_client_def Let_def)

subsection \<open>Dumping and clearing\<close>

lemma accum_client_frame [simp]:
  "cli_pending (accum_client ctx c) = cli_pending c"
  "cli_bitmap (accum_client ctx c) = cli_bitmap c"
  "cli_dump_size (accum_client ctx c) = cli_dump_size c"
  "cli_kernel (accum_client ctx c) = cli_kernel c"
  "cli_dump_buffer (accum_client ctx c) = cli_dump_buffer c"
  by (simp_all add: accum_client_def Let_def patch_dump_buffer_hdr_v4_def
      patch_dump_buffer_hdr_v5_def)

lemma accum_client_pending: "cli_pending c \<Longrightarrow> accum_client ctx c = c"
  by (simp add: accum_client_def)

lemma accum_clients_frame [simp]:
  "ctx_nclients (accum_clients ctx) = ctx_nclients ctx"
  "ctx_bitmap (accum_clients ctx) = ctx_bitmap ctx"
  "ctx_reprogram (accum_clients ctx) = ctx_reprogram ctx"
  "ctx_trace (accum_clients ctx) = ctx_trace ctx"
  "ctx_kbdev (accum_clients ctx) = ctx_kbdev ctx"
  "ctx_cpu_va (accum_clients ctx) = ctx_cpu_va ctx"
  "ctx_clients (accum_clients ctx) = map (\<lambda>(p, iter). (p, accum_client ctx iter)) (ctx_clients ctx)"
  by (simp_all add: accum_clients_def)

lemma map_of_accum_clients:
  "map_of (ctx_clients (accum_clients ctx)) cli
     = map_option (accum_client ctx) (map_of (ctx_clients ctx) cli)"
  by (simp add: map_of_map_snd)

lemma reprogram_if_needed_eq:
  "reprogram_if_needed env ctx =
     (if ctx_reprogram ctx then
        (if reprogram_errno env = 0
         then (0, ctx\<lparr>ctx_trace := HwcntEnable (ctx_bitmap ctx) # HwcntDisable # ctx_trace ctx,
                      ctx_reprogram := False,
                      ctx_clients := map (\<lambda>(p, iter). (p, iter\<lparr>cli_pending := False\<rparr>))
                                       (ctx_clients ctx)\<rparr>)
         else (- int (reprogram_errno env), ctx\<lparr>ctx_trace := HwcntDisable # ctx_trace ctx\<rparr>))
      else (0, ctx))"
  by (simp add: reprogram_if_needed_def reprogram_hwcnt_def enable_hwcnt_def disable_hwcnt_def)

lemma after_hw_dump_frame [simp]:
  "ctx_nclients (after_hw_dump env ctx) = ctx_nclients ctx"
  "ctx_bitmap (after_hw_dump env ctx) = ctx_bitmap ctx"
  "ctx_reprogram (after_hw_dump env ctx) = ctx_reprogram ctx"
  "ctx_clients (after_hw_dump env ctx) = ctx_clients ctx"
  "ctx_kbdev (after_hw_dump env ctx) = ctx_kbdev ctx"
  "ctx_cpu_va (after_hw_dump env ctx) = ctx_cpu_va ctx"
  "ctx_dump_mem (after_hw_dump env ctx) = hw_dump env"
  "ctx_trace (after_hw_dump env ctx) = HwcntWaitForDump # HwcntRequestDump # ctx_trace ctx"
  by (simp_all add: after_hw_dump_def)

text \<open>The function from the copy on, for the client the handle designates.\<close>

lemma dump_reaches_copy:
  assumes "reaches_copy env ctx cli"
  shows "kbase_vinstr_dump env ctx cli =
    (case map_of (ctx_clients ctx) cli of
       None \<Rightarrow> None
     | Some c0 \<Rightarrow>
         (let ctx3 = accum_clients (after_hw_dump env ctx);
              c = accum_client (after_hw_dump env ctx) c0
          in if \<not> cli_kernel c0 \<and> copy_to_user env \<noteq> 0
             then Some (- EFAULT, ctx3, None)
             else
               (let ctx4 = (if cli_dump_buffer c0 = ctx_cpu_va ctx
                            then ctx3\<lparr>ctx_dump_mem := cli_accum_buffer c\<rparr> else ctx3);
                    ctx5 = update_client cli memset_accum ctx4
                in Some (fst (reprogram_if_needed env ctx5), snd (reprogram_if_needed env ctx5),
                         Some (cli_dump_buffer c0, cli_accum_buffer c)))))"
proof -
  have a: "ctx\<lparr>ctx_trace := HwcntRequestDump # ctx_trace ctx,
              ctx_dump_mem := hw_dump env,
              ctx_trace := HwcntWaitForDump # HwcntRequestDump # ctx_trace ctx\<rparr>
           = after_hw_dump env ctx"
    by (simp add: after_hw_dump_def)
  show ?thesis
    using assms
    by (auto simp: kbase_vinstr_dump_def reaches_copy_def Let_def a map_of_map_snd
        case_prod_beta split: option.splits)
qed

lemma map_of_update_client:
  "map_of (ctx_clients (update_client cli f ctx)) cli = map_option f (map_of (ctx_clients ctx) cli)"
proof -
  have "map_of (map (\<lambda>(p, c). if p = cli then (p, f c) else (p, c)) xs) cli
      = map_option f (map_of xs cli)" for xs
    by (induction xs) auto
  then show ?thesis by (simp add: update_client_def)
qed

lemma map_of_reprogram_if_needed:
  "map_of (ctx_clients ctx) cli = Some c \<Longrightarrow>
   \<exists>c'. map_of (ctx_clients (snd (reprogram_if_needed env ctx))) cli = Some c'
      \<and> cli_accum_buffer c' = cli_accum_buffer c \<and> cli_dump_size c' = cli_dump_size c"
  by (auto simp: reprogram_if_needed_eq map_of_map_snd)

lemma memset_accum_zero [simp]: "accum_zero (memset_accum c)"
  by (simp add: accum_zero_def memset_accum_def)

lemma dump_copy_fault:
  assumes "reaches_copy env ctx cli" and "map_of (ctx_clients ctx) cli = Some c"
    and "\<not> cli_kernel c" and "copy_to_user env \<noteq> 0"
  shows "kbase_vinstr_dump env ctx cli = Some (- EFAULT, accum_clients (after_hw_dump env ctx), None)"
  using assms by (simp add: dump_reaches_copy Let_def)

lemma dev_v5_dump_size [simp]:
  "ctx_kbdev ctx = dev_v5 \<Longrightarrow> kbase_vinstr_dump_size ctx = 1280"
  by (simp add: kbase_vinstr_dump_size_def dev_v5_def Let_def NR_CNT_PER_BLOCK_def
      NR_BYTES_PER_CNT_def)

lemma init_fields [simp]:
  "ctx_kbdev (kbase_vinstr_init kbdev) = kbdev"
  "ctx_clients (kbase_vinstr_init kbdev) = []"
  "ctx_nclients (kbase_vinstr_init kbdev) = 0"
  "ctx_bitmap (kbase_vinstr_init kbdev) = zerobitmap"
  "ctx_reprogram (kbase_vinstr_init kbdev) = False"
  "ctx_trace (kbase_vinstr_init kbdev) = []"
  by (simp_all add: kbase_vinstr_init_def)

lemma env_ok_attach_ok [simp]: "p \<noteq> 0 \<Longrightarrow> attach_ok (env_ok p) ctx"
  by (simp add: attach_ok_def create_ok_def env_ok_def NULL_def)

lemma ctx_user_clients: "ctx_clients ctx_user = [(100, cli_user)]"
  by (simp add: ctx_user_def cli_user_def kbase_vinstr_attach_client_def Let_def env_ok_def
      NULL_def case_prod_beta create_vinstr_kctx_fst create_ok_def map_client_accum_buffer_def
      dev_v5_def sizeof_u32_def)

lemma ctx_one_clients: "ctx_clients ctx_one = [(100, cli_first)]"
  by (simp add: ctx_one_def cli_first_def kbase_vinstr_attach_client_def Let_def env_ok_def
      NULL_def case_prod_beta create_vinstr_kctx_fst create_ok_def map_client_accum_buffer_def
      dev_v5_def sizeof_u32_def)

lemma ctx_one_fields:
  "ctx_nclients ctx_one = 1" "ctx_bitmap ctx_one = shader_only" "ctx_reprogram ctx_one = False"
  "ctx_kbdev ctx_one = dev_v5"
  "ctx_trace ctx_one = [HwcntEnable shader_only, Vmap, MemAlloc, CreateContext]"
  by (simp_all add: ctx_one_def attach_ok_fields)

lemma ctx_two_clients: "ctx_clients ctx_two = [(200, cli_second), (100, cli_first)]"
  by (simp add: ctx_two_def cli_second_def kbase_vinstr_attach_client_def Let_def env_ok_def
      NULL_def case_prod_beta map_client_accum_buffer_def ctx_one_fields ctx_one_clients
      dev_v5_def sizeof_u32_def)

lemma ctx_two_fields:
  "ctx_nclients ctx_two = 2" "ctx_reprogram ctx_two = True"
  "ctx_bitmap ctx_two = hwcnt_bitmap_union shader_only tiler_only"
  by (simp_all add: ctx_two_def attach_ok_fields ctx_one_fields)

subsection \<open>What a dump or a clear keeps\<close>

lemma client_kept_refl [simp]: "client_kept x x"
  by (simp add: client_kept_def)

lemma client_kept_trans: "client_kept x y \<Longrightarrow> client_kept y z \<Longrightarrow> client_kept x z"
  by (auto simp: client_kept_def)

lemma list_all2_client_kept_map:
  assumes "\<And>p c. client_kept (p, c) (p, f p c)"
  shows "list_all2 client_kept xs (map (\<lambda>(p, c). (p, f p c)) xs)"
  using assms by (induction xs) (auto simp: case_prod_beta)

lemma ctx_kept_refl [simp]: "ctx_kept ctx ctx"
  by (simp add: ctx_kept_def list_all2_refl)

lemma ctx_kept_clients_map:
  assumes "ctx_kept ctx X" and "\<And>p c. client_kept (p, c) (p, f p c)"
  shows "ctx_kept ctx (X\<lparr>ctx_clients := map (\<lambda>(p, c). (p, f p c)) (ctx_clients X)\<rparr>)"
proof -
  have "list_all2 client_kept (ctx_clients ctx) (map (\<lambda>(p, c). (p, f p c)) (ctx_clients X))"
    using assms(1) list_all2_client_kept_map[of f "ctx_clients X", OF assms(2)]
    by (auto simp: ctx_kept_def intro: list_all2_trans[OF client_kept_trans])
  then show ?thesis using assms(1) by (simp add: ctx_kept_def)
qed

lemma ctx_kept_accum_clients: "ctx_kept ctx X \<Longrightarrow> ctx_kept ctx (accum_clients X)"
  unfolding accum_clients_def
  by (rule ctx_kept_clients_map[where f = "\<lambda>p c. accum_client X c"])
     (auto simp: client_kept_def accum_client_pending)

lemma ctx_kept_update_client:
  "ctx_kept ctx X \<Longrightarrow> ctx_kept ctx (update_client cli memset_accum X)"
proof -
  assume a: "ctx_kept ctx X"
  have e: "(\<lambda>(p, c). if p = cli then (p, memset_accum c) else (p, c))
      = (\<lambda>(p, c). (p, if p = cli then memset_accum c else c))"
    by auto
  show ?thesis
    unfolding update_client_def e
    by (rule ctx_kept_clients_map[OF a, where f = "\<lambda>p c. if p = cli then memset_accum c else c"])
       (auto simp: client_kept_def memset_accum_def accum_zero_def)
qed

lemma trace_ext_Cons:
  assumes "\<exists>es. t' = es @ t \<and> CreateContext \<notin> set es \<and> DestroyContext \<notin> set es"
    and "e \<noteq> CreateContext" "e \<noteq> DestroyContext"
  shows "\<exists>es. e # t' = es @ t \<and> CreateContext \<notin> set es \<and> DestroyContext \<notin> set es"
proof -
  from assms(1) obtain es where "t' = es @ t" "CreateContext \<notin> set es" "DestroyContext \<notin> set es"
    by blast
  then have "e # t' = (e # es) @ t \<and> CreateContext \<notin> set (e # es) \<and> DestroyContext \<notin> set (e # es)"
    using assms(2,3) by auto
  then show ?thesis by blast
qed

lemma ctx_kept_trace:
  "ctx_kept ctx X \<Longrightarrow> e \<notin> {CreateContext, DestroyContext, Vmap, Vunmap} \<Longrightarrow>
   ctx_kept ctx (X\<lparr>ctx_trace := e # ctx_trace X\<rparr>)"
  by (simp add: ctx_kept_def trace_ext_Cons)

lemma ctx_kept_dump_mem: "ctx_kept ctx X \<Longrightarrow> ctx_kept ctx (X\<lparr>ctx_dump_mem := m\<rparr>)"
  by (simp add: ctx_kept_def)

lemma ctx_kept_after_hw_dump: "ctx_kept ctx X \<Longrightarrow> ctx_kept ctx (after_hw_dump env X)"
  by (simp add: ctx_kept_def trace_ext_Cons)

lemma ctx_kept_reprogram:
  assumes "ctx_kept ctx X"
  shows "ctx_kept ctx (snd (reprogram_if_needed env X))"
proof -
  have "ctx_kept ctx (X\<lparr>ctx_clients := map (\<lambda>(p, c). (p, c\<lparr>cli_pending := False\<rparr>)) (ctx_clients X)\<rparr>)"
    by (rule ctx_kept_clients_map[OF assms, where f = "\<lambda>p c. c\<lparr>cli_pending := False\<rparr>"])
       (simp add: client_kept_def)
  then show ?thesis
    using assms by (simp add: reprogram_if_needed_eq ctx_kept_def trace_ext_Cons)
qed

lemmas ctx_kept_intros =
  ctx_kept_reprogram ctx_kept_update_client ctx_kept_accum_clients ctx_kept_after_hw_dump
  ctx_kept_dump_mem ctx_kept_trace ctx_kept_refl

lemma dump_kept:
  assumes "kbase_vinstr_dump env ctx cli = Some (err, ctx', out)"
  shows "ctx_kept ctx ctx'"
proof (cases "reaches_copy env ctx cli")
  case True
  show ?thesis
    using assms unfolding dump_reaches_copy[OF True] Let_def
    by (auto split: option.splits if_splits intro!: ctx_kept_intros)
next
  case False
  have a: "ctx\<lparr>ctx_trace := HwcntRequestDump # ctx_trace ctx,
              ctx_dump_mem := hw_dump env,
              ctx_trace := HwcntWaitForDump # HwcntRequestDump # ctx_trace ctx\<rparr>
           = after_hw_dump env ctx"
    by (simp add: after_hw_dump_def)
  show ?thesis
    using assms False
    by (auto simp: kbase_vinstr_dump_def reaches_copy_def Let_def a
        split: if_splits intro!: ctx_kept_intros)
qed

lemma clear_eq:
  "kbase_vinstr_clear env ctx cli =
     (if cli = NULL then Some (- EINVAL, ctx)
      else if request_dump_errno env \<noteq> 0 then Some (- int (request_dump_errno env), ctx)
      else if wait_for_dump_errno env \<noteq> 0
      then Some (- int (wait_for_dump_errno env),
                 ctx\<lparr>ctx_trace := HwcntRequestDump # ctx_trace ctx\<rparr>)
      else if hwcnt_clear_errno env \<noteq> 0
      then Some (- int (hwcnt_clear_errno env), after_hw_dump env ctx)
      else
        (let ctx2 = (after_hw_dump env ctx)
                      \<lparr>ctx_trace := HwcntClear # ctx_trace (after_hw_dump env ctx)\<rparr>
         in case map_of (ctx_clients ctx) cli of
              None \<Rightarrow> None
            | Some c \<Rightarrow>
                Some (reprogram_if_needed env (update_client cli memset_accum (accum_clients ctx2)))))"
  by (auto simp: kbase_vinstr_clear_def Let_def after_hw_dump_def map_of_map_snd
      split: option.splits)

lemma clear_kept:
  assumes "kbase_vinstr_clear env ctx cli = Some (err, ctx')"
  shows "ctx_kept ctx ctx'"
proof -
  have "ctx_kept ctx (snd (reprogram_if_needed env (update_client cli memset_accum
      (accum_clients ((after_hw_dump env ctx)
         \<lparr>ctx_trace := HwcntClear # ctx_trace (after_hw_dump env ctx)\<rparr>)))))"
    by (intro ctx_kept_intros) simp
  moreover have "ctx_kept ctx (after_hw_dump env ctx)"
    by (intro ctx_kept_intros)
  moreover have "ctx_kept ctx (ctx\<lparr>ctx_trace := HwcntRequestDump # ctx_trace ctx\<rparr>)"
    by (intro ctx_kept_intros) simp
  ultimately show ?thesis
    using assms unfolding clear_eq Let_def
    by (auto split: if_splits option.splits simp del: after_hw_dump_frame)
qed

subsection \<open>Invariants of the reachable contexts\<close>

lemma nclients_ok_zero: "nclients_ok ctx \<Longrightarrow> (ctx_nclients ctx = 0) = (ctx_clients ctx = [])"
  by (auto simp: nclients_ok_def unat_eq_0)

lemma ctx_kept_length: "ctx_kept ctx ctx' \<Longrightarrow> length (ctx_clients ctx') = length (ctx_clients ctx)"
  by (auto simp: ctx_kept_def dest: list_all2_lengthD)

lemma ctx_kept_union:
  assumes "ctx_kept ctx ctx'"
  shows "clients_union (ctx_clients ctx') = clients_union (ctx_clients ctx)"
proof -
  have "list_all2 client_kept xs ys \<Longrightarrow> clients_union ys = clients_union xs" for xs ys
  proof (induction rule: list_all2_induct)
    case Nil
    show ?case by simp
  next
    case (Cons x xs y ys)
    then show ?case
      by (cases x; cases y) (simp add: clients_union_Cons client_kept_def)
  qed
  then show ?thesis using assms by (simp add: ctx_kept_def)
qed

lemma ctx_kept_pending_zero:
  assumes "ctx_kept ctx ctx'"
    and "\<forall>x \<in> set (ctx_clients ctx). cli_pending (snd x) \<longrightarrow> accum_zero (snd x)"
  shows "\<forall>y \<in> set (ctx_clients ctx'). cli_pending (snd y) \<longrightarrow> accum_zero (snd y)"
proof -
  have "list_all2 client_kept xs ys \<Longrightarrow>
      \<forall>x \<in> set xs. cli_pending (snd x) \<longrightarrow> accum_zero (snd x) \<Longrightarrow>
      \<forall>y \<in> set ys. cli_pending (snd y) \<longrightarrow> accum_zero (snd y)" for xs ys
    by (induction rule: list_all2_induct) (auto simp: client_kept_def)
  then show ?thesis using assms unfolding ctx_kept_def by blast
qed

lemma reachable_nclients_ok: "reachable ctx \<Longrightarrow> nclients_ok ctx"
proof (induction rule: reachable.induct)
  case (init kbdev)
  show ?case by (simp add: nclients_ok_def)
next
  case (attach ctx env kern dump_buffer bitmap)
  show ?case
  proof (cases "attach_ok env ctx")
    case True
    from attach_ok_clients[OF True, of kern dump_buffer bitmap]
    obtain c where c: "ctx_clients (snd (kbase_vinstr_attach_client env ctx kern dump_buffer bitmap))
        = (kmalloc_cli env, c) # ctx_clients ctx"
      by blast
    have "unat (ctx_nclients ctx) + 1 < 2 ^ 32"
      using attach.IH attach.hyps(2) by (simp add: nclients_ok_def)
    then have "unat (ctx_nclients ctx + 1) = unat (ctx_nclients ctx) + 1"
      by (simp add: unat_add_lem[THEN iffD1])
    then show ?thesis
      using attach.IH by (simp add: nclients_ok_def c attach_ok_fields(1)[OF True])
  next
    case False
    then show ?thesis using attach.IH by (simp add: nclients_ok_def attach_fail_fields)
  qed
next
  case (detach ctx cli)
  show ?case
  proof (cases "cli \<in> set (map fst (ctx_clients ctx))")
    case True
    then have "ctx_clients ctx \<noteq> []" by auto
    then have "1 \<le> unat (ctx_nclients ctx)" using detach.IH
      by (cases "ctx_clients ctx") (simp_all add: nclients_ok_def)
    then have "unat (ctx_nclients ctx - 1) = unat (ctx_nclients ctx) - 1"
      by (simp add: unat_sub word_le_nat_alt)
    then show ?thesis
      using detach.IH True
      by (simp add: nclients_ok_def detach_clients detach_fields length_list_del)
  next
    case False
    then show ?thesis
      using detach.IH
      by (simp add: nclients_ok_def detach_clients detach_fields list_del_absent)
  qed
next
  case (dump ctx denv cli err ctx' out)
  from dump_kept[OF dump.hyps(2)] dump.IH show ?case
    by (simp add: nclients_ok_def ctx_kept_length) (simp add: ctx_kept_def)
next
  case (clear ctx denv cli err ctx')
  from clear_kept[OF clear.hyps(2)] clear.IH show ?case
    by (simp add: nclients_ok_def ctx_kept_length) (simp add: ctx_kept_def)
qed

lemma reachable_live:
  "reachable ctx \<Longrightarrow>
   live_kctx (ctx_trace ctx) = (if ctx_clients ctx = [] then 0 else 1)
   \<and> live_vmap (ctx_trace ctx) = (if ctx_clients ctx = [] then 0 else 1)"
proof (induction rule: reachable.induct)
  case (init kbdev)
  show ?case by simp
next
  case (attach ctx env kern dump_buffer bitmap)
  note z = nclients_ok_zero[OF reachable_nclients_ok[OF attach.hyps(1)]]
  show ?case
  proof (cases "attach_ok env ctx")
    case True
    from attach_ok_clients[OF True, of kern dump_buffer bitmap]
    obtain c where c: "ctx_clients (snd (kbase_vinstr_attach_client env ctx kern dump_buffer bitmap))
        = (kmalloc_cli env, c) # ctx_clients ctx"
      by blast
    show ?thesis using attach.IH z by (simp add: c attach_ok_fields(4)[OF True])
  next
    case False
    then show ?thesis using attach.IH by (simp add: attach_fail_fields)
  qed
next
  case (detach ctx cli)
  note ok = reachable_nclients_ok[OF detach.hyps(1)]
  note ok' = reachable_nclients_ok[OF reachable.detach[OF detach.hyps(1), of cli]]
  note z' = nclients_ok_zero[OF ok']
  show ?case
  proof (cases "cli \<in> set (map fst (ctx_clients ctx))")
    case True
    then have ne: "ctx_clients ctx \<noteq> []" by auto
    show ?thesis
      using detach.IH True ne z'
      by (auto simp: detach_clients detach_fields)
  next
    case False
    then show ?thesis
      using detach.IH by (simp add: detach_clients detach_fields list_del_absent)
  qed
next
  case (dump ctx denv cli err ctx' out)
  from dump_kept[OF dump.hyps(2)] have k: "ctx_kept ctx ctx'" .
  then have "(ctx_clients ctx' = []) = (ctx_clients ctx = [])"
    using ctx_kept_length[OF k] by (metis length_0_conv)
  then show ?case using dump.IH k by (simp add: ctx_kept_def)
next
  case (clear ctx denv cli err ctx')
  from clear_kept[OF clear.hyps(2)] have k: "ctx_kept ctx ctx'" .
  then have "(ctx_clients ctx' = []) = (ctx_clients ctx = [])"
    using ctx_kept_length[OF k] by (metis length_0_conv)
  then show ?case using clear.IH k by (simp add: ctx_kept_def)
qed

lemma reachable_pending_zero:
  "reachable ctx \<Longrightarrow> \<forall>x \<in> set (ctx_clients ctx). cli_pending (snd x) \<longrightarrow> accum_zero (snd x)"
proof (induction rule: reachable.induct)
  case (init kbdev)
  show ?case by simp
next
  case (attach ctx env kern dump_buffer bitmap)
  show ?case
  proof (cases "attach_ok env ctx")
    case True
    from attach_ok_clients[OF True, of kern dump_buffer bitmap]
    obtain c where c: "ctx_clients (snd (kbase_vinstr_attach_client env ctx kern dump_buffer bitmap))
        = (kmalloc_cli env, c) # ctx_clients ctx" "accum_zero c"
      by blast
    show ?thesis using attach.IH by (simp add: c)
  next
    case False
    then show ?thesis using attach.IH by (simp add: attach_fail_fields)
  qed
next
  case (detach ctx cli)
  then show ?case
    using set_list_del[of cli "ctx_clients ctx"] by (auto simp: detach_clients)
next
  case (dump ctx denv cli err ctx' out)
  from ctx_kept_pending_zero[OF dump_kept[OF dump.hyps(2)] dump.IH] show ?case .
next
  case (clear ctx denv cli err ctx')
  from ctx_kept_pending_zero[OF clear_kept[OF clear.hyps(2)] clear.IH] show ?case .
qed

lemma bitmap_subset_refl [simp]: "bitmap_subset a a"
  by (simp add: bitmap_subset_def)

lemma bitmap_subset_zero [simp]: "bitmap_subset zerobitmap a"
  by (simp add: bitmap_subset_def zerobitmap_def)

lemma bitmap_subset_union:
  "bitmap_subset u m \<Longrightarrow> bitmap_subset (hwcnt_bitmap_union bm u) (hwcnt_bitmap_union m bm)"
  by (auto simp: bitmap_subset_def ac_simps)

lemma reachable_subset:
  "reachable ctx \<Longrightarrow> bitmap_subset (clients_union (ctx_clients ctx)) (ctx_bitmap ctx)"
proof (induction rule: reachable.induct)
  case (init kbdev)
  show ?case by simp
next
  case (attach ctx env kern dump_buffer bitmap)
  note z = nclients_ok_zero[OF reachable_nclients_ok[OF attach.hyps(1)]]
  show ?case
  proof (cases "attach_ok env ctx")
    case True
    from attach_ok_clients[OF True, of kern dump_buffer bitmap]
    obtain c where c: "ctx_clients (snd (kbase_vinstr_attach_client env ctx kern dump_buffer bitmap))
        = (kmalloc_cli env, c) # ctx_clients ctx" "cli_bitmap c = bitmap"
      by blast
    show ?thesis
      using attach.IH z
      by (auto simp: c clients_union_Cons attach_ok_fields(2)[OF True] bitmap_subset_union)
         (simp add: bitmap_subset_def zerobitmap_def)
  next
    case False
    have sub: "bitmap_subset u m \<Longrightarrow> bitmap_subset u (hwcnt_bitmap_union m bm)" for u m bm
      by (auto simp: bitmap_subset_def or.assoc[symmetric])
    show ?thesis
      using attach.IH z
      by (auto simp: attach_fail_fields[OF False] sub)
  qed
next
  case (detach ctx cli)
  show ?case by (simp add: detach_bitmap)
next
  case (dump ctx denv cli err ctx' out)
  from dump_kept[OF dump.hyps(2)] have k: "ctx_kept ctx ctx'" .
  show ?case using dump.IH ctx_kept_union[OF k] k by (simp add: ctx_kept_def)
next
  case (clear ctx denv cli err ctx')
  from clear_kept[OF clear.hyps(2)] have k: "ctx_kept ctx ctx'" .
  show ?case using clear.IH ctx_kept_union[OF k] k by (simp add: ctx_kept_def)
qed

lemma live_ok_append:
  "CreateContext \<notin> set es \<Longrightarrow> DestroyContext \<notin> set es \<Longrightarrow> live_ok t \<Longrightarrow>
   (live_kctx t = 0 \<or> live_kctx t = 1) \<Longrightarrow>
   live_ok (es @ t) \<and> live_kctx (es @ t) = live_kctx t"
  by (induction es) auto

lemma reachable_live_ok: "reachable ctx \<Longrightarrow> live_ok (ctx_trace ctx)"
proof (induction rule: reachable.induct)
  case (init kbdev)
  show ?case by simp
next
  case (attach ctx env kern dump_buffer bitmap)
  note z = nclients_ok_zero[OF reachable_nclients_ok[OF attach.hyps(1)]]
  have "ctx_nclients ctx = 0 \<Longrightarrow> live_kctx (ctx_trace ctx) = 0"
    using reachable_live[OF attach.hyps(1)] z by simp
  then show ?case
    using attach.IH by (simp add: attach_trace)
next
  case (detach ctx cli)
  have "cli \<in> set (map fst (ctx_clients ctx)) \<Longrightarrow> live_kctx (ctx_trace ctx) = 1"
    using reachable_live[OF detach.hyps(1)] by auto
  then show ?case
    using detach.IH by (simp add: detach_fields)
next
  case (dump ctx denv cli err ctx' out)
  from dump_kept[OF dump.hyps(2)] obtain es where
    "ctx_trace ctx' = es @ ctx_trace ctx" "CreateContext \<notin> set es" "DestroyContext \<notin> set es"
    unfolding ctx_kept_def by blast
  then show ?case
    using live_ok_append[of es "ctx_trace ctx"] dump.IH reachable_live[OF dump.hyps(1)]
    by (simp split: if_splits)
next
  case (clear ctx denv cli err ctx')
  from clear_kept[OF clear.hyps(2)] obtain es where
    "ctx_trace ctx' = es @ ctx_trace ctx" "CreateContext \<notin> set es" "DestroyContext \<notin> set es"
    unfolding ctx_kept_def by blast
  then show ?case
    using live_ok_append[of es "ctx_trace ctx"] clear.IH reachable_live[OF clear.hyps(1)]
    by (simp split: if_splits)
qed

lemma live_ok_drop: "live_ok t \<Longrightarrow> n < length t \<Longrightarrow> live_kctx (drop n t) \<in> {0, 1}"
proof (induction t arbitrary: n)
  case Nil
  then show ?case by simp
next
  case (Cons e t)
  then show ?case by (cases n) auto
qed

subsection \<open>The pending flags\<close>

lemma pending_flags_accum_clients [simp]: "pending_flags (accum_clients X) = pending_flags X"
  by (simp add: pending_flags_def case_prod_beta comp_def)

lemma pending_flags_update_client [simp]:
  "pending_flags (update_client cli memset_accum X) = pending_flags X"
  by (auto simp: pending_flags_def update_client_def memset_accum_def case_prod_beta)

lemma pending_flags_frame [simp]:
  "pending_flags (X\<lparr>ctx_trace := t\<rparr>) = pending_flags X"
  "pending_flags (X\<lparr>ctx_dump_mem := m\<rparr>) = pending_flags X"
  "pending_flags (after_hw_dump env X) = pending_flags X"
  by (simp_all add: pending_flags_def)

lemma update_client_frame [simp]:
  "ctx_reprogram (update_client cli f X) = ctx_reprogram X"
  "ctx_bitmap (update_client cli f X) = ctx_bitmap X"
  "ctx_trace (update_client cli f X) = ctx_trace X"
  by (simp_all add: update_client_def)

lemma reprogram_flags:
  "flags_kept X (snd (reprogram_if_needed env X))
   \<or> (fst (reprogram_if_needed env X) = 0 \<and> reprogrammed X (snd (reprogram_if_needed env X)))"
  by (auto simp: reprogram_if_needed_eq flags_kept_def reprogrammed_def list_all_iff)

lemma flags_step:
  assumes "pending_flags X = pending_flags ctx" "ctx_reprogram X = ctx_reprogram ctx"
    "ctx_bitmap X = ctx_bitmap ctx"
  shows "flags_kept ctx (snd (reprogram_if_needed env X))
   \<or> (fst (reprogram_if_needed env X) = 0 \<and> reprogrammed ctx (snd (reprogram_if_needed env X)))"
  using reprogram_flags[of X env] assms by (auto simp: flags_kept_def reprogrammed_def)

lemma dump_delivers_reaches_copy:
  "kbase_vinstr_dump env ctx cli = Some (err, ctx', Some out) \<Longrightarrow> reaches_copy env ctx cli"
  by (auto simp: kbase_vinstr_dump_def reaches_copy_def Let_def split: if_splits)

lemma dump_flags:
  assumes "kbase_vinstr_dump env ctx cli = Some (err, ctx', out)"
  shows "flags_kept ctx ctx' \<or> (err = 0 \<and> reprogrammed ctx ctx')"
proof (cases "reaches_copy env ctx cli")
  case True
  show ?thesis
  proof (cases "map_of (ctx_clients ctx) cli")
    case None
    then show ?thesis using assms by (simp add: dump_reaches_copy[OF True])
  next
    case (Some c0)
    define c where "c = accum_client (after_hw_dump env ctx) c0"
    define ctx4 where "ctx4 = (if cli_dump_buffer c0 = ctx_cpu_va ctx
        then (accum_clients (after_hw_dump env ctx))\<lparr>ctx_dump_mem := cli_accum_buffer c\<rparr>
        else accum_clients (after_hw_dump env ctx))"
    define ctx5 where "ctx5 = update_client cli memset_accum ctx4"
    have f5: "pending_flags ctx5 = pending_flags ctx" "ctx_reprogram ctx5 = ctx_reprogram ctx"
      "ctx_bitmap ctx5 = ctx_bitmap ctx"
      by (simp_all add: ctx5_def ctx4_def)
    show ?thesis
    proof (cases "\<not> cli_kernel c0 \<and> copy_to_user env \<noteq> 0")
      case True
      with assms Some have "ctx' = accum_clients (after_hw_dump env ctx)"
        by (simp add: dump_reaches_copy[OF \<open>reaches_copy env ctx cli\<close>] Let_def)
      then show ?thesis by (simp add: flags_kept_def)
    next
      case False
      with assms Some have "err = fst (reprogram_if_needed env ctx5)"
        "ctx' = snd (reprogram_if_needed env ctx5)"
        by (auto simp: dump_reaches_copy[OF \<open>reaches_copy env ctx cli\<close>] Let_def ctx5_def ctx4_def
            c_def)
      then show ?thesis using flags_step[OF f5, of env] by simp
    qed
  qed
next
  case False
  have a: "ctx\<lparr>ctx_trace := HwcntRequestDump # ctx_trace ctx,
              ctx_dump_mem := hw_dump env,
              ctx_trace := HwcntWaitForDump # HwcntRequestDump # ctx_trace ctx\<rparr>
           = after_hw_dump env ctx"
    by (simp add: after_hw_dump_def)
  have "flags_kept ctx (after_hw_dump env ctx)"
    "flags_kept ctx (ctx\<lparr>ctx_trace := HwcntRequestDump # ctx_trace ctx\<rparr>)" "flags_kept ctx ctx"
    by (simp_all add: flags_kept_def)
  then show ?thesis
    using assms False
    by (auto simp: kbase_vinstr_dump_def reaches_copy_def Let_def a split: if_splits)
qed

lemma clear_flags:
  assumes "kbase_vinstr_clear env ctx cli = Some (err, ctx')"
  shows "flags_kept ctx ctx' \<or> (err = 0 \<and> reprogrammed ctx ctx')"
proof -
  define ctx5 where "ctx5 = update_client cli memset_accum (accum_clients ((after_hw_dump env ctx)
         \<lparr>ctx_trace := HwcntClear # ctx_trace (after_hw_dump env ctx)\<rparr>))"
  have f5: "pending_flags ctx5 = pending_flags ctx" "ctx_reprogram ctx5 = ctx_reprogram ctx"
    "ctx_bitmap ctx5 = ctx_bitmap ctx"
    by (simp_all add: ctx5_def)
  have "flags_kept ctx (after_hw_dump env ctx)"
    "flags_kept ctx (ctx\<lparr>ctx_trace := HwcntRequestDump # ctx_trace ctx\<rparr>)" "flags_kept ctx ctx"
    by (simp_all add: flags_kept_def)
  then show ?thesis
    using assms flags_step[OF f5, of env] unfolding clear_eq Let_def ctx5_def[symmetric]
    by (auto split: if_splits option.splits simp del: after_hw_dump_frame)
qed

lemma map_of_list_del: "h \<noteq> cli \<Longrightarrow> map_of (list_del h xs) cli = map_of xs cli"
  by (induction h xs rule: list_del.induct) auto

lemma map_of_update_client_any:
  "map_of (ctx_clients (update_client h f X)) k
     = (if k = h then map_option f (map_of (ctx_clients X) k) else map_of (ctx_clients X) k)"
proof -
  have "map_of (map (\<lambda>(p, c). if p = h then (p, f c) else (p, c)) xs) k
      = (if k = h then map_option f (map_of xs k) else map_of xs k)" for xs
    by (induction xs) auto
  then show ?thesis by (simp add: update_client_def)
qed

lemma memset_accum_of_zero: "accum_zero c \<Longrightarrow> memset_accum c = c"
  by (simp add: memset_accum_def accum_zero_def)

lemma update_client_pending:
  assumes "map_of (ctx_clients X) cli = Some c" "accum_zero c"
  shows "map_of (ctx_clients (update_client h memset_accum X)) cli = Some c"
  using assms by (cases "cli = h") (simp_all add: map_of_update_client_any memset_accum_of_zero)

lemma reprogram_exact:
  assumes "pending_flags X = pending_flags ctx" "ctx_reprogram X = ctx_reprogram ctx"
    "ctx_bitmap X = ctx_bitmap ctx"
  shows "if ctx_reprogram ctx \<and> reprogram_errno env = 0
         then fst (reprogram_if_needed env X) = 0
              \<and> reprogrammed ctx (snd (reprogram_if_needed env X))
         else flags_kept ctx (snd (reprogram_if_needed env X))"
  using assms
  by (auto simp: reprogram_if_needed_eq flags_kept_def reprogrammed_def list_all_iff)

lemma reprogram_client:
  assumes "map_of (ctx_clients X) cli = Some c" "cli_pending c"
  shows "map_of (ctx_clients (snd (reprogram_if_needed env X))) cli
     = Some (if ctx_reprogram X \<and> reprogram_errno env = 0 then c\<lparr>cli_pending := False\<rparr> else c)"
  using assms by (simp add: reprogram_if_needed_eq map_of_map_snd)

lemma dump_pending_client:
  assumes m: "map_of (ctx_clients ctx) cli = Some c" and p: "cli_pending c" and z: "accum_zero c"
    and d: "kbase_vinstr_dump env ctx h = Some (err, ctx', out)"
  shows "if dump_reprograms env ctx h
         then err = 0 \<and> reprogrammed ctx ctx'
              \<and> map_of (ctx_clients ctx') cli = Some (c\<lparr>cli_pending := False\<rparr>)
         else flags_kept ctx ctx' \<and> map_of (ctx_clients ctx') cli = Some c"
proof (cases "reaches_copy env ctx h")
  case True
  show ?thesis
  proof (cases "map_of (ctx_clients ctx) h")
    case None
    then show ?thesis using d by (simp add: dump_reaches_copy[OF True])
  next
    case (Some c0)
    define c1 where "c1 = accum_client (after_hw_dump env ctx) c0"
    define ctx3 where "ctx3 = accum_clients (after_hw_dump env ctx)"
    define ctx4 where "ctx4 = (if cli_dump_buffer c0 = ctx_cpu_va ctx
        then ctx3\<lparr>ctx_dump_mem := cli_accum_buffer c1\<rparr> else ctx3)"
    define ctx5 where "ctx5 = update_client h memset_accum ctx4"
    have m3: "map_of (ctx_clients ctx3) cli = Some c"
      using m p by (simp add: ctx3_def map_of_map_snd accum_client_pending)
    have f5: "pending_flags ctx5 = pending_flags ctx" "ctx_reprogram ctx5 = ctx_reprogram ctx"
      "ctx_bitmap ctx5 = ctx_bitmap ctx"
      by (simp_all add: ctx5_def ctx4_def ctx3_def)
    have "map_of (ctx_clients ctx4) cli = Some c"
      using m3 by (simp add: ctx4_def)
    then have m5: "map_of (ctx_clients ctx5) cli = Some c"
      unfolding ctx5_def by (rule update_client_pending[OF _ z])
    show ?thesis
    proof (cases "\<not> cli_kernel c0 \<and> copy_to_user env \<noteq> 0")
      case True
      with d Some have "ctx' = ctx3"
        by (simp add: dump_reaches_copy[OF \<open>reaches_copy env ctx h\<close>] Let_def ctx3_def)
      moreover have "\<not> dump_reprograms env ctx h"
        using True Some by (simp add: dump_reprograms_def)
      ultimately show ?thesis using m3 by (simp add: flags_kept_def ctx3_def)
    next
      case False
      with d Some have e: "err = fst (reprogram_if_needed env ctx5)"
        "ctx' = snd (reprogram_if_needed env ctx5)"
        by (auto simp: dump_reaches_copy[OF \<open>reaches_copy env ctx h\<close>] Let_def ctx5_def ctx4_def
            ctx3_def c1_def)
      have r: "dump_reprograms env ctx h = (ctx_reprogram ctx \<and> reprogram_errno env = 0)"
        using False Some \<open>reaches_copy env ctx h\<close> by (auto simp: dump_reprograms_def)
      show ?thesis
        using reprogram_exact[OF f5, of env] reprogram_client[OF m5 p, of env]
        by (simp add: e r f5 split: if_splits)
    qed
  qed
next
  case False
  have a: "ctx\<lparr>ctx_trace := HwcntRequestDump # ctx_trace ctx,
              ctx_dump_mem := hw_dump env,
              ctx_trace := HwcntWaitForDump # HwcntRequestDump # ctx_trace ctx\<rparr>
           = after_hw_dump env ctx"
    by (simp add: after_hw_dump_def)
  have k: "flags_kept ctx (after_hw_dump env ctx)"
    "flags_kept ctx (ctx\<lparr>ctx_trace := HwcntRequestDump # ctx_trace ctx\<rparr>)" "flags_kept ctx ctx"
    by (simp_all add: flags_kept_def)
  have n: "\<not> dump_reprograms env ctx h" using False by (simp add: dump_reprograms_def)
  have "flags_kept ctx ctx' \<and> ctx_clients ctx' = ctx_clients ctx"
    using d False k
    by (auto simp: kbase_vinstr_dump_def reaches_copy_def Let_def a split: if_splits)
  then show ?thesis using n m by simp
qed

lemma clear_pending_client:
  assumes m: "map_of (ctx_clients ctx) cli = Some c" and p: "cli_pending c" and z: "accum_zero c"
    and d: "kbase_vinstr_clear env ctx h = Some (err, ctx')"
  shows "if clear_reprograms env ctx h
         then err = 0 \<and> reprogrammed ctx ctx'
              \<and> map_of (ctx_clients ctx') cli = Some (c\<lparr>cli_pending := False\<rparr>)
         else flags_kept ctx ctx' \<and> map_of (ctx_clients ctx') cli = Some c"
proof -
  define ctx5 where "ctx5 = update_client h memset_accum (accum_clients ((after_hw_dump env ctx)
         \<lparr>ctx_trace := HwcntClear # ctx_trace (after_hw_dump env ctx)\<rparr>))"
  have f5: "pending_flags ctx5 = pending_flags ctx" "ctx_reprogram ctx5 = ctx_reprogram ctx"
    "ctx_bitmap ctx5 = ctx_bitmap ctx"
    by (simp_all add: ctx5_def)
  have "map_of (ctx_clients (accum_clients ((after_hw_dump env ctx)
         \<lparr>ctx_trace := HwcntClear # ctx_trace (after_hw_dump env ctx)\<rparr>))) cli = Some c"
    using m p by (simp add: map_of_map_snd accum_client_pending)
  then have m5: "map_of (ctx_clients ctx5) cli = Some c"
    unfolding ctx5_def by (rule update_client_pending[OF _ z])
  have k: "flags_kept ctx (after_hw_dump env ctx)"
    "flags_kept ctx (ctx\<lparr>ctx_trace := HwcntRequestDump # ctx_trace ctx\<rparr>)" "flags_kept ctx ctx"
    by (simp_all add: flags_kept_def)
  show ?thesis
  proof (cases "h \<noteq> NULL \<and> request_dump_errno env = 0 \<and> wait_for_dump_errno env = 0
      \<and> hwcnt_clear_errno env = 0")
    case True
    then obtain c0 where c0: "map_of (ctx_clients ctx) h = Some c0"
      using d unfolding clear_eq Let_def by (auto split: option.splits)
    have e: "err = fst (reprogram_if_needed env ctx5)" "ctx' = snd (reprogram_if_needed env ctx5)"
      using d True c0 unfolding clear_eq Let_def ctx5_def[symmetric] by auto
    have r: "clear_reprograms env ctx h = (ctx_reprogram ctx \<and> reprogram_errno env = 0)"
      using True c0 by (simp add: clear_reprograms_def)
    show ?thesis
      using reprogram_exact[OF f5, of env] reprogram_client[OF m5 p, of env]
      by (simp add: e r f5 split: if_splits)
  next
    case False
    then have n: "\<not> clear_reprograms env ctx h" by (auto simp: clear_reprograms_def)
    have "ctx_clients (after_hw_dump env ctx) = ctx_clients ctx"
      by (simp add: after_hw_dump_def)
    then have "flags_kept ctx ctx' \<and> ctx_clients ctx' = ctx_clients ctx"
      using d False k unfolding clear_eq Let_def
      by (auto split: if_splits simp del: after_hw_dump_frame)
    then show ?thesis using n m by simp
  qed
qed

lemma dump_returns:
  "map_of (ctx_clients ctx) h \<noteq> None \<Longrightarrow> kbase_vinstr_dump env ctx h \<noteq> None"
  by (auto simp: kbase_vinstr_dump_def Let_def map_of_map_snd case_prod_beta
      split: option.splits)

lemma clear_returns:
  "map_of (ctx_clients ctx) h \<noteq> None \<Longrightarrow> kbase_vinstr_clear env ctx h \<noteq> None"
  unfolding clear_eq Let_def by (auto split: option.splits)

lemma some_pending_flags:
  "(\<exists>x \<in> set (ctx_clients X). cli_pending (snd x)) = (True \<in> snd ` set (pending_flags X))"
  by (force simp: pending_flags_def case_prod_beta)

lemma flags_kept_pending:
  assumes "flags_kept ctx ctx'"
    and "(\<exists>x \<in> set (ctx_clients ctx). cli_pending (snd x)) \<longrightarrow> ctx_reprogram ctx"
  shows "(\<exists>x \<in> set (ctx_clients ctx'). cli_pending (snd x)) \<longrightarrow> ctx_reprogram ctx'"
  using assms unfolding some_pending_flags by (simp add: flags_kept_def)

lemma reprogrammed_pending:
  assumes "reprogrammed ctx ctx'"
  shows "(\<exists>x \<in> set (ctx_clients ctx'). cli_pending (snd x)) \<longrightarrow> ctx_reprogram ctx'"
  using assms by (auto simp: reprogrammed_def list_all_iff)

lemma set_list_del_subset: "set (list_del cli xs) \<subseteq> set xs"
  by (induction cli xs rule: list_del.induct) auto

lemma reachable_pending_reprogram:
  "reachable ctx \<Longrightarrow> (\<exists>x \<in> set (ctx_clients ctx). cli_pending (snd x)) \<longrightarrow> ctx_reprogram ctx"
proof (induction rule: reachable.induct)
  case (init kbdev)
  show ?case by simp
next
  case (attach ctx env kern dump_buffer bitmap)
  note z = nclients_ok_zero[OF reachable_nclients_ok[OF attach.hyps(1)]]
  show ?case
  proof (cases "attach_ok env ctx")
    case True
    from attach_ok_clients[OF True, of kern dump_buffer bitmap]
    obtain c where c: "ctx_clients (snd (kbase_vinstr_attach_client env ctx kern dump_buffer bitmap))
        = (kmalloc_cli env, c) # ctx_clients ctx" "cli_pending c = (ctx_nclients ctx \<noteq> 0)"
      by blast
    show ?thesis
    proof (cases "ctx_nclients ctx = 0")
      case True
      then have "ctx_clients ctx = []" using z by simp
      then show ?thesis using c True by simp
    next
      case False
      then show ?thesis by (simp add: attach_ok_fields(3)[OF \<open>attach_ok env ctx\<close>])
    qed
  next
    case False
    show ?thesis
    proof (cases "ctx_nclients ctx = 0")
      case True
      then have "ctx_clients ctx = []" using z by simp
      then show ?thesis by (simp add: attach_fail_fields(1)[OF False])
    next
      case nz: False
      show ?thesis
        using attach.IH nz
        by (simp add: attach_fail_fields(1)[OF False] attach_fail_fields(6)[OF False])
    qed
  qed
next
  case (detach ctx cli)
  show ?case
  proof (cases "cli \<in> set (map fst (ctx_clients ctx))")
    case True
    then show ?thesis by (simp add: detach_fields)
  next
    case False
    then show ?thesis using detach.IH by (simp add: detach_clients detach_fields list_del_absent)
  qed
next
  case (dump ctx denv cli err ctx' out)
  from dump_flags[OF dump.hyps(2)] show ?case
    using flags_kept_pending[OF _ dump.IH] reprogrammed_pending by blast
next
  case (clear ctx denv cli err ctx')
  from clear_flags[OF clear.hyps(2)] show ?case
    using flags_kept_pending[OF _ clear.IH] reprogrammed_pending by blast
qed

lemma attach_fst_NULL:
  "(fst (kbase_vinstr_attach_client env ctx kern buf bm) = NULL) = (\<not> attach_ok env ctx)"
  by (auto simp: attach_fst attach_ok_def)

text \<open>
  The life of the hardware context over attach, detach, dump and clear. In every context
  reachable from \<^verbatim>\<open>kbase_vinstr_init\<close> by these calls there is one live hardware context,
  and one live mapping of the dump buffer, when clients are attached, and none when no
  client is; at every point of the trace, contexts created less contexts destroyed is 0
  or 1. A successful attach into an empty registry creates exactly one hardware context
  and destroys none; a detach that empties the registry destroys exactly one and
  creates none.
\<close>

lemma hw_context_iff_clients:
  assumes "reachable ctx"
  shows "live_kctx (ctx_trace ctx) = (if ctx_clients ctx = [] then 0 else 1)
    \<and> live_ok (ctx_trace ctx)
    \<and> live_vmap (ctx_trace ctx) = (if ctx_clients ctx = [] then 0 else 1)
    \<and> (ctx_clients ctx = [] \<longrightarrow> fst (kbase_vinstr_attach_client env ctx kern buf bm) \<noteq> NULL \<longrightarrow>
         count_list (ctx_trace (snd (kbase_vinstr_attach_client env ctx kern buf bm))) CreateContext
           = count_list (ctx_trace ctx) CreateContext + 1
         \<and> count_list (ctx_trace (snd (kbase_vinstr_attach_client env ctx kern buf bm))) DestroyContext
           = count_list (ctx_trace ctx) DestroyContext)
    \<and> (ctx_clients ctx \<noteq> [] \<longrightarrow> ctx_clients (kbase_vinstr_detach_client ctx cli) = [] \<longrightarrow>
         count_list (ctx_trace (kbase_vinstr_detach_client ctx cli)) DestroyContext
           = count_list (ctx_trace ctx) DestroyContext + 1
         \<and> count_list (ctx_trace (kbase_vinstr_detach_client ctx cli)) CreateContext
           = count_list (ctx_trace ctx) CreateContext)"
proof -
  note z = nclients_ok_zero[OF reachable_nclients_ok[OF assms]]
  note z' = nclients_ok_zero[OF reachable_nclients_ok[OF reachable.detach[OF assms, of cli]]]
  have a: "count_list (ctx_trace (snd (kbase_vinstr_attach_client env ctx kern buf bm))) CreateContext
           = count_list (ctx_trace ctx) CreateContext + 1
         \<and> count_list (ctx_trace (snd (kbase_vinstr_attach_client env ctx kern buf bm))) DestroyContext
           = count_list (ctx_trace ctx) DestroyContext"
    if "ctx_clients ctx = []" "fst (kbase_vinstr_attach_client env ctx kern buf bm) \<noteq> NULL"
  proof -
    have ok: "attach_ok env ctx" using that(2) by (simp add: attach_fst_NULL)
    show ?thesis using that(1) z by (simp add: attach_ok_fields(4)[OF ok])
  qed
  have d: "count_list (ctx_trace (kbase_vinstr_detach_client ctx cli)) DestroyContext
           = count_list (ctx_trace ctx) DestroyContext + 1
         \<and> count_list (ctx_trace (kbase_vinstr_detach_client ctx cli)) CreateContext
           = count_list (ctx_trace ctx) CreateContext"
    if "ctx_clients ctx \<noteq> []" "ctx_clients (kbase_vinstr_detach_client ctx cli) = []"
  proof -
    have "cli \<in> set (map fst (ctx_clients ctx))"
      using that list_del_absent[of cli "ctx_clients ctx"] by (auto simp: detach_clients)
    moreover have "ctx_nclients (kbase_vinstr_detach_client ctx cli) = 0"
      using z' that(2) by simp
    ultimately show ?thesis by (simp add: detach_fields)
  qed
  from reachable_live[OF assms] reachable_live_ok[OF assms] a d show ?thesis by blast
qed

subsection \<open>The sample contexts\<close>

lemma ctx_mixed_clients: "ctx_clients ctx_mixed = [(200, cli_mixed), (100, cli_first)]"
  by (simp add: ctx_mixed_def cli_mixed_def kbase_vinstr_attach_client_def Let_def env_ok_def
      NULL_def case_prod_beta map_client_accum_buffer_def ctx_one_fields ctx_one_clients
      dev_v5_def sizeof_u32_def)

lemma ctx_mixed_fields:
  "ctx_nclients ctx_mixed = 2" "ctx_reprogram ctx_mixed = True"
  by (simp_all add: ctx_mixed_def attach_ok_fields ctx_one_fields)

lemma reachable_ctx_one: "reachable ctx_one"
  unfolding ctx_one_def by (rule reachable.attach[OF reachable.init]) simp

lemma reachable_ctx_two: "reachable ctx_two"
  unfolding ctx_two_def by (rule reachable.attach[OF reachable_ctx_one]) (simp add: ctx_one_clients)

lemma reachable_ctx_mixed: "reachable ctx_mixed"
  unfolding ctx_mixed_def by (rule reachable.attach[OF reachable_ctx_one]) (simp add: ctx_one_clients)

lemma clients_union_samples:
  "clients_union [(100, cli_first)] = shader_only"
  "clients_union [(200, cli_second)] = tiler_only"
  "clients_union [(200, cli_second), (100, cli_first)] = hwcnt_bitmap_union shader_only tiler_only"
  by (rule bitmap4_eqI; simp add: clients_union_def or_all_def cli_first_def cli_second_def
      shader_only_def tiler_only_def)+

lemma hwcnt_layout_dev_v5:
  "hwcnt_layout dev_v5 = [BLK_JM, BLK_TILER, BLK_MMU_L2, BLK_SHADER, BLK_SHADER]"
proof -
  have "replicate 2 BLK_SHADER = [BLK_SHADER, BLK_SHADER]" by (simp add: numeral_2_eq_2)
  then show ?thesis by (simp add: dev_v5_def hwcnt_layout_def v5_layout_def)
qed

text \<open>A counter of a client that is not pending, after the pass of \<^verbatim>\<open>accum_clients\<close>.\<close>

lemma accum_client_counter:
  assumes np: "\<not> cli_pending cli"
    and len: "length (cli_accum_buffer cli) * 4 = cli_dump_size cli"
    and B: "B < length (hwcnt_layout (ctx_kbdev ctx))" and j: "4 \<le> j" "j < 64"
    and k: "64 * B + j < length (cli_accum_buffer cli)"
  shows "cli_accum_buffer (accum_client ctx cli) ! (64 * B + j) =
    sat_add_u32 (cli_accum_buffer cli ! (64 * B + j)) (ctx_dump_mem ctx ! (64 * B + j))"
proof -
  define p where "p = cli_accum_buffer (if BASE_HW_FEATURE_V4 (ctx_kbdev ctx)
       then patch_dump_buffer_hdr_v4 ctx cli else patch_dump_buffer_hdr_v5 ctx cli)"
  have lp: "length p = length (cli_accum_buffer cli)" by (simp add: p_def)
  have m: "(64 * B + j) mod 64 = j" using j by simp
  have "p ! (64 * B + j) = hdr_word (hwcnt_layout (ctx_kbdev ctx) ! B) (cli_bitmap cli) j
      (ctx_dump_mem ctx ! (64 * B + j)) (cli_accum_buffer cli ! (64 * B + j))"
    unfolding p_def using j k by (intro patch_hdr_blocks[OF B]) simp_all
  then have pk: "p ! (64 * B + j) = cli_accum_buffer cli ! (64 * B + j)"
    using j by (simp add: hdr_word_def NR_BYTES_PER_HDR_def sizeof_u32_def split: option.splits)
  have "cli_accum_buffer (accum_client ctx cli) ! (64 * B + j) =
      accum_dump_buffer p (ctx_dump_mem ctx) (cli_dump_size cli) ! (64 * B + j)"
    by (simp add: accum_client_not_pending[OF np] p_def)
  also have "\<dots> = sat_add_u32 (p ! (64 * B + j)) (ctx_dump_mem ctx ! (64 * B + j))"
    using nth_accum_dump_buffer[of p "cli_dump_size cli" "64 * B + j" "ctx_dump_mem ctx"]
      len lp k j m by simp
  finally show ?thesis by (simp add: pk)
qed

lemma first_counter_accumulated:
  assumes "ctx_kbdev ctx = dev_v5" and "ctx_dump_mem ctx = replicate 320 1"
    and "\<not> cli_pending c" and "cli_dump_size c = 1280" and "cli_accum_buffer c = replicate 320 0"
  shows "cli_accum_buffer (accum_client ctx c) ! 4 = 1"
  using accum_client_counter[of c 0 ctx 4] assms
  by (simp add: hwcnt_layout_dev_v5 sat_add_u32_def U32_MAX_def)

lemma hw_context_iff_clients_samples:
  "live_kctx (ctx_trace (kbase_vinstr_init dev_v5)) = 0
   \<and> live_ok (ctx_trace ctx_two)
   \<and> live_kctx (ctx_trace ctx_one) = 1 \<and> live_vmap (ctx_trace ctx_one) = 1
   \<and> count_list (ctx_trace ctx_one) CreateContext = 1
   \<and> live_kctx (ctx_trace ctx_two) = 1
   \<and> count_list (ctx_trace (kbase_vinstr_detach_client ctx_one 100)) DestroyContext = 1
   \<and> live_kctx (ctx_trace (kbase_vinstr_detach_client ctx_one 100)) = 0"
proof -
  have b: "fst (kbase_vinstr_attach_client (env_ok 100) (kbase_vinstr_init dev_v5) True 0 shader_only)
      \<noteq> NULL"
    by (simp add: attach_fst) (simp add: env_ok_def NULL_def)
  from hw_context_iff_clients[OF reachable.init, of dev_v5 "env_ok 100" True 0 shader_only] b
  have 0: "live_kctx (ctx_trace (kbase_vinstr_init dev_v5)) = 0"
    and 1: "count_list (ctx_trace ctx_one) CreateContext = 1"
    by (simp_all add: ctx_one_def)
  have e: "ctx_clients (kbase_vinstr_detach_client ctx_one 100) = []"
    by (simp add: detach_clients ctx_one_clients)
  from hw_context_iff_clients[OF reachable_ctx_one, of _ _ _ _ 100] e
  have 2: "live_kctx (ctx_trace ctx_one) = 1" "live_vmap (ctx_trace ctx_one) = 1"
    and 3: "count_list (ctx_trace (kbase_vinstr_detach_client ctx_one 100)) DestroyContext = 1"
    by (simp_all add: ctx_one_clients ctx_one_fields)
  from hw_context_iff_clients[OF reachable_ctx_two]
  have 4: "live_kctx (ctx_trace ctx_two) = 1" "live_ok (ctx_trace ctx_two)"
    by (simp_all add: ctx_two_clients)
  from hw_context_iff_clients[OF reachable.detach[OF reachable_ctx_one, of 100]] e
  have 5: "live_kctx (ctx_trace (kbase_vinstr_detach_client ctx_one 100)) = 0" by simp
  from 0 1 2 3 4 5 show ?thesis by simp
qed

lemma sample_kbdev [simp]:
  "ctx_kbdev ctx_user = dev_v5" "ctx_kbdev ctx_two = dev_v5" "ctx_kbdev ctx_mixed = dev_v5"
  by (simp_all add: ctx_user_def ctx_two_def ctx_mixed_def ctx_one_fields)

lemma sample_reaches_copy:
  "reaches_copy (denv_ok hw) ctx_two 200" "reaches_copy (denv_ok hw) ctx_user 100"
  "reaches_copy (denv_fault hw) ctx_user 100" "reaches_copy (denv_fault hw) ctx_mixed 200"
  by (simp_all add: reaches_copy_def denv_ok_def denv_fault_def NULL_def dev_v5_def)

lemma sample_reprograms:
  "reaches_copy (denv_ok hw) ctx_mixed 200"
  "dump_reprograms (denv_ok hw) ctx_mixed 200"
  "clear_reprograms (denv_ok hw) ctx_mixed 100"
  "\<not> dump_reprograms (denv_fault hw) ctx_mixed 200"
  by (simp_all add: reaches_copy_def dump_reprograms_def clear_reprograms_def denv_ok_def
      denv_fault_def NULL_def dev_v5_def ctx_mixed_clients ctx_mixed_fields cli_mixed_def)

subsection \<open>Terminating a context\<close>

lemma term_clients_fields:
  "ctx_clients (term_clients ctx cs) = []"
  "ctx_trace (term_clients ctx cs) = ctx_trace ctx"
  "ctx_kctx (term_clients ctx cs) = ctx_kctx ctx"
  by (induction ctx cs rule: term_clients.induct) simp_all

lemma kbase_vinstr_term_trace:
  "ctx_trace (kbase_vinstr_term ctx) =
     (if ctx_kctx ctx \<noteq> NULL
      then DestroyContext # MemFree # Vunmap # HwcntDisable # ctx_trace ctx
      else ctx_trace ctx)"
  by (simp add: kbase_vinstr_term_def Let_def term_clients_fields destroy_vinstr_kctx_def
      disable_hwcnt_def unmap_kernel_dump_buffer_def)

lemma term_ctx_one:
  "live_kctx (ctx_trace (kbase_vinstr_term ctx_one)) = 0
   \<and> live_vmap (ctx_trace (kbase_vinstr_term ctx_one)) = 0"
proof -
  have "ctx_kctx ctx_one = 4096"
    by (simp add: ctx_one_def attach_unfold env_ok_def kbase_vinstr_init_def NULL_def
        ENOMEM_def create_vinstr_kctx_def map_kernel_dump_buffer_def enable_hwcnt_def Let_def
        map_client_accum_buffer_def split: prod.splits)
  then show ?thesis
    by (simp add: kbase_vinstr_term_trace ctx_one_fields live_kctx_def live_vmap_def NULL_def)
qed

section \<open>The claims about the life of a context\<close>

text \<open>
  Claim C1, as amended. In every context reachable from \<^verbatim>\<open>kbase_vinstr_init\<close>, after
  calls that succeeded or failed, the superset mask contains the union of the masks of
  the attached clients, category by category. After every detach it equals that union,
  taken over the clients that remain, so no bit of the removed client alone is left.
  After every successful attach into a context whose mask equalled the union, or which
  had no client, it equals the union again. A dump or a clear changes neither the mask
  nor the union. A failed attach that got its client record leaves the requested bits
  in the mask: the mask is the old mask OR the request (the request itself when no
  client is attached), until the next detach or first attach rebuilds it.
\<close>

theorem superset_mask:
  assumes "reachable ctx"
  shows "bitmap_subset (clients_union (ctx_clients ctx)) (ctx_bitmap ctx)
    \<and> ctx_bitmap (kbase_vinstr_detach_client ctx cli)
        = clients_union (ctx_clients (kbase_vinstr_detach_client ctx cli))
    \<and> ctx_clients (kbase_vinstr_detach_client ctx cli) = list_del cli (ctx_clients ctx)
    \<and> (ctx_bitmap ctx = clients_union (ctx_clients ctx) \<or> ctx_clients ctx = [] \<longrightarrow>
         fst (kbase_vinstr_attach_client env ctx kern buf bm) \<noteq> NULL \<longrightarrow>
         ctx_bitmap (snd (kbase_vinstr_attach_client env ctx kern buf bm))
           = clients_union (ctx_clients (snd (kbase_vinstr_attach_client env ctx kern buf bm))))
    \<and> (fst (kbase_vinstr_attach_client env ctx kern buf bm) = NULL \<longrightarrow>
         ctx_bitmap (snd (kbase_vinstr_attach_client env ctx kern buf bm))
           = (if kmalloc_cli env = NULL then ctx_bitmap ctx
              else if ctx_clients ctx = [] then bm
              else hwcnt_bitmap_union (ctx_bitmap ctx) bm))
    \<and> (kbase_vinstr_dump denv ctx h = Some (err, ctx', out) \<longrightarrow>
         ctx_bitmap ctx' = ctx_bitmap ctx
         \<and> clients_union (ctx_clients ctx') = clients_union (ctx_clients ctx))
    \<and> (kbase_vinstr_clear denv ctx h = Some (err, ctx') \<longrightarrow>
         ctx_bitmap ctx' = ctx_bitmap ctx
         \<and> clients_union (ctx_clients ctx') = clients_union (ctx_clients ctx))"
proof -
  note z = nclients_ok_zero[OF reachable_nclients_ok[OF assms]]
  have a: "ctx_bitmap (snd (kbase_vinstr_attach_client env ctx kern buf bm))
           = clients_union (ctx_clients (snd (kbase_vinstr_attach_client env ctx kern buf bm)))"
    if "ctx_bitmap ctx = clients_union (ctx_clients ctx) \<or> ctx_clients ctx = []"
      "fst (kbase_vinstr_attach_client env ctx kern buf bm) \<noteq> NULL"
  proof -
    have ok: "attach_ok env ctx" using that(2) by (simp add: attach_fst_NULL)
    from attach_ok_clients[OF ok, of kern buf bm]
    obtain c where c: "ctx_clients (snd (kbase_vinstr_attach_client env ctx kern buf bm))
        = (kmalloc_cli env, c) # ctx_clients ctx" "cli_bitmap c = bm"
      by blast
    show ?thesis
    proof (cases "ctx_clients ctx = []")
      case True
      then show ?thesis
        using z by (simp add: c clients_union_Cons attach_ok_fields(2)[OF ok])
           (rule bitmap4_eqI, simp_all add: zerobitmap_def)
    next
      case False
      then have "ctx_bitmap ctx = clients_union (ctx_clients ctx)" using that(1) by simp
      then show ?thesis
        using z False by (simp add: c clients_union_Cons attach_ok_fields(2)[OF ok])
           (rule bitmap4_eqI, simp_all add: ac_simps)
    qed
  qed
  have f: "ctx_bitmap (snd (kbase_vinstr_attach_client env ctx kern buf bm))
           = (if kmalloc_cli env = NULL then ctx_bitmap ctx
              else if ctx_clients ctx = [] then bm
              else hwcnt_bitmap_union (ctx_bitmap ctx) bm)"
    if "fst (kbase_vinstr_attach_client env ctx kern buf bm) = NULL"
    using that z by (simp add: attach_fst_NULL attach_fail_fields)
  have d: "ctx_bitmap ctx' = ctx_bitmap ctx
         \<and> clients_union (ctx_clients ctx') = clients_union (ctx_clients ctx)"
    if "kbase_vinstr_dump denv ctx h = Some (err, ctx', out)"
    using dump_kept[OF that] ctx_kept_union[of ctx ctx'] by (simp add: ctx_kept_def)
  have e: "ctx_bitmap ctx' = ctx_bitmap ctx
         \<and> clients_union (ctx_clients ctx') = clients_union (ctx_clients ctx)"
    if "kbase_vinstr_clear denv ctx h = Some (err, ctx')"
    using clear_kept[OF that] ctx_kept_union[of ctx ctx'] by (simp add: ctx_kept_def)
  from reachable_subset[OF assms] detach_bitmap[of ctx cli] detach_clients[of ctx cli] a f d e
  show ?thesis by blast
qed

theorem superset_mask_witness:
  "ctx_bitmap ctx_two = clients_union (ctx_clients ctx_two)
   \<and> ctx_bitmap (kbase_vinstr_detach_client ctx_two 100) = tiler_only
   \<and> bitmap_subset (clients_union (ctx_clients ctx_two)) (ctx_bitmap ctx_two)"
proof -
  have a: "ctx_bitmap ctx_one = clients_union (ctx_clients ctx_one) \<or> ctx_clients ctx_one = []"
    by (simp add: ctx_one_fields ctx_one_clients clients_union_samples)
  have b: "fst (kbase_vinstr_attach_client (env_ok 200) ctx_one True 0 tiler_only) \<noteq> NULL"
    by (simp add: attach_fst) (simp add: env_ok_def NULL_def)
  from superset_mask[OF reachable_ctx_one, of _ "env_ok 200" True 0 tiler_only] a b
  have 1: "ctx_bitmap ctx_two = clients_union (ctx_clients ctx_two)"
    unfolding ctx_two_def by blast
  from superset_mask[OF reachable_ctx_two, of 100]
  have 2: "ctx_bitmap (kbase_vinstr_detach_client ctx_two 100) = tiler_only"
    and 3: "bitmap_subset (clients_union (ctx_clients ctx_two)) (ctx_bitmap ctx_two)"
    by (simp_all add: ctx_two_clients clients_union_samples)
  from 1 2 3 show ?thesis by simp
qed

text \<open>
  The claim C1 as it is written fails after a failed attach: with one client asking for
  shader counters attached, an attach asking for tiler counters fails at the allocation
  of its accumulation buffer, and the tiler bit stays in the superset mask although no
  attached client asks for it.
\<close>

theorem failed_attach_leaves_bits:
  "reachable ctx_one
   \<and> fst (kbase_vinstr_attach_client (env_no_accum 200) ctx_one True 0 tiler_only) = NULL
   \<and> ctx_clients (snd (kbase_vinstr_attach_client (env_no_accum 200) ctx_one True 0 tiler_only))
       = [(100, cli_first)]
   \<and> clients_union
        (ctx_clients (snd (kbase_vinstr_attach_client (env_no_accum 200) ctx_one True 0 tiler_only)))
       = shader_only
   \<and> ctx_bitmap (snd (kbase_vinstr_attach_client (env_no_accum 200) ctx_one True 0 tiler_only))
       = hwcnt_bitmap_union shader_only tiler_only
   \<and> ctx_bitmap (snd (kbase_vinstr_attach_client (env_no_accum 200) ctx_one True 0 tiler_only))
       \<noteq> clients_union
          (ctx_clients (snd (kbase_vinstr_attach_client (env_no_accum 200) ctx_one True 0 tiler_only)))"
proof -
  have no: "\<not> attach_ok (env_no_accum 200) ctx_one"
    by (simp add: attach_ok_def env_no_accum_def)
  have k: "kmalloc_cli (env_no_accum 200) \<noteq> NULL"
    by (simp add: env_no_accum_def env_ok_def NULL_def)
  have ne: "hwcnt_bitmap_union shader_only tiler_only \<noteq> shader_only"
    by (simp add: hwcnt_bitmap_union_def shader_only_def tiler_only_def)
  show ?thesis
    using reachable_ctx_one k ne
    by (simp add: attach_fst_NULL attach_fail_fields[OF no] no ctx_one_clients ctx_one_fields
        clients_union_samples)
qed

text \<open>
  Claim C2, as amended. When \<^verbatim>\<open>kbase_vinstr_attach_client\<close> fails (it returns \<open>NULL\<close>:
  the client record, the hardware context or the accumulation buffer could not be
  allocated), the client list and the client count are as before the call, and so are
  the live hardware contexts and dump-buffer mappings: what the call created it has
  destroyed. When the client record could not be allocated the whole context is as
  before. After a later failure the superset mask and the flag \<^verbatim>\<open>reprogram\<close> are not
  restored: the mask is the old mask OR the request (the request itself for a first
  client), and \<^verbatim>\<open>reprogram\<close> is set, except that it is clear when the context was
  created for a first client and the accumulation buffer then failed.
\<close>

theorem failed_attach_frame:
  assumes "fst (kbase_vinstr_attach_client env ctx kern buf bm) = NULL"
  shows "ctx_clients (snd (kbase_vinstr_attach_client env ctx kern buf bm)) = ctx_clients ctx
    \<and> ctx_nclients (snd (kbase_vinstr_attach_client env ctx kern buf bm)) = ctx_nclients ctx
    \<and> live_kctx (ctx_trace (snd (kbase_vinstr_attach_client env ctx kern buf bm)))
        = live_kctx (ctx_trace ctx)
    \<and> live_vmap (ctx_trace (snd (kbase_vinstr_attach_client env ctx kern buf bm)))
        = live_vmap (ctx_trace ctx)
    \<and> (kmalloc_cli env = NULL \<longrightarrow> snd (kbase_vinstr_attach_client env ctx kern buf bm) = ctx)
    \<and> ctx_bitmap (snd (kbase_vinstr_attach_client env ctx kern buf bm))
        = (if kmalloc_cli env = NULL then ctx_bitmap ctx
           else if ctx_nclients ctx = 0 then bm
           else hwcnt_bitmap_union (ctx_bitmap ctx) bm)
    \<and> ctx_reprogram (snd (kbase_vinstr_attach_client env ctx kern buf bm))
        = (if kmalloc_cli env = NULL then ctx_reprogram ctx
           else if ctx_nclients ctx = 0 then \<not> create_ok env
           else True)"
proof -
  have no: "\<not> attach_ok env ctx" using assms by (simp add: attach_fst_NULL)
  have "snd (kbase_vinstr_attach_client env ctx kern buf bm) = ctx" if "kmalloc_cli env = NULL"
    using that by (simp add: kbase_vinstr_attach_client_def)
  then show ?thesis by (simp add: attach_fail_fields[OF no])
qed

theorem failed_attach_frame_witness:
  "ctx_clients (snd (kbase_vinstr_attach_client (env_no_accum 200) ctx_one True 0 tiler_only))
       = [(100, cli_first)]
   \<and> ctx_nclients (snd (kbase_vinstr_attach_client (env_no_accum 200) ctx_one True 0 tiler_only)) = 1
   \<and> live_kctx (ctx_trace (snd (kbase_vinstr_attach_client (env_no_accum 200) ctx_one True 0 tiler_only)))
       = 1
   \<and> ctx_reprogram (snd (kbase_vinstr_attach_client (env_no_accum 200) ctx_one True 0 tiler_only))"
proof -
  have no: "\<not> attach_ok (env_no_accum 200) ctx_one"
    by (simp add: attach_ok_def env_no_accum_def)
  have k: "kmalloc_cli (env_no_accum 200) \<noteq> NULL"
    by (simp add: env_no_accum_def env_ok_def NULL_def)
  have f: "fst (kbase_vinstr_attach_client (env_no_accum 200) ctx_one True 0 tiler_only) = NULL"
    using no by (simp add: attach_fst_NULL)
  from failed_attach_frame[OF f] k show ?thesis
    by (simp add: ctx_one_clients ctx_one_fields)
qed

text \<open>
  The claim C2 as it is written fails: the failed attach of the example above changes
  the superset mask and sets \<^verbatim>\<open>reprogram\<close>.
\<close>

theorem failed_attach_changes_context:
  "fst (kbase_vinstr_attach_client (env_no_accum 200) ctx_one True 0 tiler_only) = NULL
   \<and> ctx_bitmap (snd (kbase_vinstr_attach_client (env_no_accum 200) ctx_one True 0 tiler_only))
       \<noteq> ctx_bitmap ctx_one
   \<and> ctx_reprogram (snd (kbase_vinstr_attach_client (env_no_accum 200) ctx_one True 0 tiler_only))
       \<noteq> ctx_reprogram ctx_one
   \<and> snd (kbase_vinstr_attach_client (env_no_accum 200) ctx_one True 0 tiler_only) \<noteq> ctx_one"
proof -
  have no: "\<not> attach_ok (env_no_accum 200) ctx_one"
    by (simp add: attach_ok_def env_no_accum_def)
  have k: "kmalloc_cli (env_no_accum 200) \<noteq> NULL"
    by (simp add: env_no_accum_def env_ok_def NULL_def)
  have ne: "hwcnt_bitmap_union shader_only tiler_only \<noteq> shader_only"
    by (simp add: hwcnt_bitmap_union_def shader_only_def tiler_only_def)
  have r: "ctx_reprogram (snd (kbase_vinstr_attach_client (env_no_accum 200) ctx_one True 0 tiler_only))
       \<noteq> ctx_reprogram ctx_one"
    using k by (simp add: attach_fail_fields[OF no] ctx_one_fields)
  then have "snd (kbase_vinstr_attach_client (env_no_accum 200) ctx_one True 0 tiler_only) \<noteq> ctx_one"
    by auto
  with r show ?thesis
    using k ne by (simp add: attach_fst_NULL attach_fail_fields[OF no] no ctx_one_fields)
qed

text \<open>
  Claim C5. In a reachable context, a client whose flag \<^verbatim>\<open>pending\<close> is set has an
  accumulation buffer of zeros, and the flag \<^verbatim>\<open>reprogram\<close> of the context is set. The
  pass of \<^verbatim>\<open>accum_clients\<close> leaves the client as it is; a dump it requests that reaches
  the copy, and does not fault there, delivers zeros only. A dump or a clear for an
  attached handle returns. When the call comes to its last step and the hardware
  accepts the new program, it returns 0, \<^verbatim>\<open>reprogram\<close> is clear, no client is pending,
  the counters were disabled and enabled with the superset mask, and the client is as
  before but for its flag \<^verbatim>\<open>pending\<close>, now clear. In every other case a dump or a
  clear, for any handle, leaves all pending flags, the flag \<^verbatim>\<open>reprogram\<close> and the client
  as they were. A detach of another handle and an attach leave the client pending, with
  its buffer.
\<close>

theorem pending_client_stays_zero:
  assumes "reachable ctx" and "map_of (ctx_clients ctx) cli = Some c" and "cli_pending c"
  shows "accum_zero c
    \<and> accum_client X c = c
    \<and> ctx_reprogram ctx
    \<and> (kbase_vinstr_dump denv ctx cli = Some (err, ctx', Some (dst, data)) \<longrightarrow>
         data = replicate (cli_dump_size c div sizeof_u32) 0)
    \<and> (reaches_copy denv ctx cli \<and> (cli_kernel c \<or> copy_to_user denv = 0) \<longrightarrow>
         (\<exists>e x. kbase_vinstr_dump denv ctx cli
            = Some (e, x, Some (cli_dump_buffer c, replicate (cli_dump_size c div sizeof_u32) 0))))
    \<and> (map_of (ctx_clients ctx) h \<noteq> None \<longrightarrow>
         kbase_vinstr_dump denv ctx h \<noteq> None \<and> kbase_vinstr_clear denv ctx h \<noteq> None)
    \<and> (dump_reprograms denv ctx h \<longrightarrow>
         (\<exists>x out. kbase_vinstr_dump denv ctx h = Some (0, x, out) \<and> reprogrammed ctx x
            \<and> map_of (ctx_clients x) cli = Some (c\<lparr>cli_pending := False\<rparr>)))
    \<and> (kbase_vinstr_dump denv ctx h = Some (err, ctx', out) \<and> \<not> dump_reprograms denv ctx h \<longrightarrow>
         flags_kept ctx ctx' \<and> map_of (ctx_clients ctx') cli = Some c)
    \<and> (clear_reprograms denv ctx h \<longrightarrow>
         (\<exists>x. kbase_vinstr_clear denv ctx h = Some (0, x) \<and> reprogrammed ctx x
            \<and> map_of (ctx_clients x) cli = Some (c\<lparr>cli_pending := False\<rparr>)))
    \<and> (kbase_vinstr_clear denv ctx h = Some (err, ctx') \<and> \<not> clear_reprograms denv ctx h \<longrightarrow>
         flags_kept ctx ctx' \<and> map_of (ctx_clients ctx') cli = Some c)
    \<and> (h \<noteq> cli \<longrightarrow> map_of (ctx_clients (kbase_vinstr_detach_client ctx h)) cli = Some c)
    \<and> (kmalloc_cli env \<noteq> cli \<longrightarrow>
         map_of (ctx_clients (snd (kbase_vinstr_attach_client env ctx kern buf bm))) cli = Some c)"
proof -
  have mem: "(cli, c) \<in> set (ctx_clients ctx)" using assms(2) by (rule map_of_SomeD)
  then have z: "accum_zero c"
    using reachable_pending_zero[OF assms(1)] assms(3) by force
  have rp: "ctx_reprogram ctx"
    using reachable_pending_reprogram[OF assms(1)] mem assms(3) by force
  have deliver: "data = replicate (cli_dump_size c div sizeof_u32) 0"
    if d: "kbase_vinstr_dump denv ctx cli = Some (err, ctx', Some (dst, data))"
  proof -
    from dump_delivers_reaches_copy[OF d] have r: "reaches_copy denv ctx cli" .
    have "data = cli_accum_buffer (accum_client (after_hw_dump denv ctx) c)"
      using d assms(2) by (simp add: dump_reaches_copy[OF r] Let_def split: if_splits)
    then show ?thesis using z assms(3) by (simp add: accum_client_pending accum_zero_def)
  qed
  have delivered: "\<exists>e x. kbase_vinstr_dump denv ctx cli
      = Some (e, x, Some (cli_dump_buffer c, replicate (cli_dump_size c div sizeof_u32) 0))"
    if r: "reaches_copy denv ctx cli" and k: "cli_kernel c \<or> copy_to_user denv = 0"
    using k z assms(2,3)
    by (auto simp: dump_reaches_copy[OF r] Let_def accum_client_pending accum_zero_def)
  have ret: "kbase_vinstr_dump denv ctx h \<noteq> None \<and> kbase_vinstr_clear denv ctx h \<noteq> None"
    if "map_of (ctx_clients ctx) h \<noteq> None"
    using that dump_returns[of ctx h denv] clear_returns[of ctx h denv] by simp
  have dr: "\<exists>x out. kbase_vinstr_dump denv ctx h = Some (0, x, out) \<and> reprogrammed ctx x
      \<and> map_of (ctx_clients x) cli = Some (c\<lparr>cli_pending := False\<rparr>)"
    if r: "dump_reprograms denv ctx h"
  proof -
    from r have "map_of (ctx_clients ctx) h \<noteq> None"
      by (auto simp: dump_reprograms_def split: option.splits)
    then obtain e x out where d: "kbase_vinstr_dump denv ctx h = Some (e, x, out)"
      using dump_returns[of ctx h denv] by (cases "kbase_vinstr_dump denv ctx h") auto
    from dump_pending_client[OF assms(2,3) z d] r d show ?thesis by simp
  qed
  have dk: "flags_kept ctx ctx' \<and> map_of (ctx_clients ctx') cli = Some c"
    if "kbase_vinstr_dump denv ctx h = Some (err, ctx', out)" "\<not> dump_reprograms denv ctx h"
    using dump_pending_client[OF assms(2,3) z that(1)] that(2) by simp
  have cr: "\<exists>x. kbase_vinstr_clear denv ctx h = Some (0, x) \<and> reprogrammed ctx x
      \<and> map_of (ctx_clients x) cli = Some (c\<lparr>cli_pending := False\<rparr>)"
    if r: "clear_reprograms denv ctx h"
  proof -
    from r have "map_of (ctx_clients ctx) h \<noteq> None" by (simp add: clear_reprograms_def)
    then obtain e x where d: "kbase_vinstr_clear denv ctx h = Some (e, x)"
      using clear_returns[of ctx h denv] by (cases "kbase_vinstr_clear denv ctx h") auto
    from clear_pending_client[OF assms(2,3) z d] r d show ?thesis by simp
  qed
  have ck: "flags_kept ctx ctx' \<and> map_of (ctx_clients ctx') cli = Some c"
    if "kbase_vinstr_clear denv ctx h = Some (err, ctx')" "\<not> clear_reprograms denv ctx h"
    using clear_pending_client[OF assms(2,3) z that(1)] that(2) by simp
  have det: "map_of (ctx_clients (kbase_vinstr_detach_client ctx h)) cli = Some c" if "h \<noteq> cli"
    using that assms(2) by (simp add: detach_clients map_of_list_del)
  have att: "map_of (ctx_clients (snd (kbase_vinstr_attach_client env ctx kern buf bm))) cli = Some c"
    if "kmalloc_cli env \<noteq> cli"
  proof (cases "attach_ok env ctx")
    case True
    from attach_ok_clients[OF True, of kern buf bm] that assms(2) show ?thesis by auto
  next
    case False
    then show ?thesis using assms(2) by (simp add: attach_fail_fields)
  qed
  have ac: "accum_client X c = c" using assms(3) by (simp add: accum_client_pending)
  from z ac rp deliver delivered ret dr dk cr ck det att show ?thesis by blast
qed

theorem pending_client_stays_zero_witness:
  "accum_zero cli_mixed
   \<and> accum_client ctx_mixed cli_mixed = cli_mixed
   \<and> ctx_reprogram ctx_mixed
   \<and> (\<exists>x. kbase_vinstr_dump (denv_ok (replicate 320 1)) ctx_mixed 200
              = Some (0, x, Some (7, replicate 320 0))
          \<and> \<not> ctx_reprogram x
          \<and> map_of (ctx_clients x) 200 = Some (cli_mixed\<lparr>cli_pending := False\<rparr>)
          \<and> take 2 (ctx_trace x) = [HwcntEnable (ctx_bitmap ctx_mixed), HwcntDisable])
   \<and> (\<exists>x. kbase_vinstr_clear (denv_ok (replicate 320 1)) ctx_mixed 100 = Some (0, x)
          \<and> \<not> ctx_reprogram x
          \<and> map_of (ctx_clients x) 200 = Some (cli_mixed\<lparr>cli_pending := False\<rparr>))
   \<and> (\<exists>x. kbase_vinstr_dump (denv_fault (replicate 320 1)) ctx_mixed 200
              = Some (- EFAULT, x, None)
          \<and> ctx_reprogram x \<and> map_of (ctx_clients x) 200 = Some cli_mixed)"
proof -
  let ?ok = "denv_ok (replicate 320 1)" and ?fault = "denv_fault (replicate 320 1)"
  have m: "map_of (ctx_clients ctx_mixed) 200 = Some cli_mixed"
    by (simp add: ctx_mixed_clients)
  have p: "cli_pending cli_mixed" "\<not> cli_kernel cli_mixed" "cli_dump_buffer cli_mixed = 7"
    "cli_dump_size cli_mixed = 1280"
    by (simp_all add: cli_mixed_def)
  have e: "copy_to_user ?ok = 0" "copy_to_user ?fault \<noteq> 0"
    by (simp_all add: denv_ok_def denv_fault_def)
  note t = pending_client_stays_zero[OF reachable_ctx_mixed m p(1)]
  note c2 = conjunct2
  note t123 = t[THEN conjunct1] t[THEN c2, THEN conjunct1] t[THEN c2, THEN c2, THEN conjunct1]
  note t5 = t[THEN c2, THEN c2, THEN c2, THEN c2, THEN conjunct1, rule_format]
  note t7 = t[THEN c2, THEN c2, THEN c2, THEN c2, THEN c2, THEN c2, THEN conjunct1, rule_format]
  note t8 = t[THEN c2, THEN c2, THEN c2, THEN c2, THEN c2, THEN c2, THEN c2, THEN conjunct1,
      rule_format]
  note t9 = t[THEN c2, THEN c2, THEN c2, THEN c2, THEN c2, THEN c2, THEN c2, THEN c2,
      THEN conjunct1, rule_format]
  from t123
  have 1: "accum_zero cli_mixed" "accum_client ctx_mixed cli_mixed = cli_mixed"
    "ctx_reprogram ctx_mixed"
    by simp_all
  from t5[where denv="?ok"] sample_reprograms(1) e(1)
  obtain e1 x1 where d: "kbase_vinstr_dump ?ok ctx_mixed 200
        = Some (e1, x1, Some (cli_dump_buffer cli_mixed,
                              replicate (cli_dump_size cli_mixed div sizeof_u32) 0))"
    by blast
  from t7[where denv="?ok" and h=200] sample_reprograms(2)
  obtain x out where r: "kbase_vinstr_dump ?ok ctx_mixed 200 = Some (0, x, out)"
      "reprogrammed ctx_mixed x"
      "map_of (ctx_clients x) 200 = Some (cli_mixed\<lparr>cli_pending := False\<rparr>)"
    by blast
  from d r(1) have "out = Some (7, replicate 320 0)" by (simp add: p sizeof_u32_def)
  with r have 2: "\<exists>x. kbase_vinstr_dump ?ok ctx_mixed 200 = Some (0, x, Some (7, replicate 320 0))
          \<and> \<not> ctx_reprogram x
          \<and> map_of (ctx_clients x) 200 = Some (cli_mixed\<lparr>cli_pending := False\<rparr>)
          \<and> take 2 (ctx_trace x) = [HwcntEnable (ctx_bitmap ctx_mixed), HwcntDisable]"
    by (auto simp: reprogrammed_def)
  from t9[where denv="?ok" and h=100] sample_reprograms(3)
  have 3: "\<exists>x. kbase_vinstr_clear ?ok ctx_mixed 100 = Some (0, x) \<and> \<not> ctx_reprogram x
          \<and> map_of (ctx_clients x) 200 = Some (cli_mixed\<lparr>cli_pending := False\<rparr>)"
    by (auto simp: reprogrammed_def)
  obtain y where f: "kbase_vinstr_dump ?fault ctx_mixed 200 = Some (- EFAULT, y, None)"
    using m p e by (simp add: dump_reaches_copy[OF sample_reaches_copy(4)] Let_def)
  from t8[where denv="?fault" and h=200 and err="- EFAULT" and ctx'=y and out=None] f
    sample_reprograms(4)
  have "flags_kept ctx_mixed y \<and> map_of (ctx_clients y) 200 = Some cli_mixed" by blast
  with f 1(3) have 4: "\<exists>x. kbase_vinstr_dump ?fault ctx_mixed 200 = Some (- EFAULT, x, None)
          \<and> ctx_reprogram x \<and> map_of (ctx_clients x) 200 = Some cli_mixed"
    by (auto simp: flags_kept_def)
  from 1 2 3 4 show ?thesis by blast
qed

text \<open>
  Claim C6. When \<^verbatim>\<open>kbase_vinstr_dump\<close> reaches the copy for an attached client: if the
  client is of user space and \<^verbatim>\<open>copy_to_user\<close> fails, the call returns \<^verbatim>\<open>-EFAULT\<close>, delivers
  nothing, and the client's accumulation buffer is the one the accumulation pass has
  just produced, which is what a successful copy would have delivered; otherwise that
  buffer is delivered to the destination and the client's buffer is zero afterwards.
\<close>

theorem dump_copy_fault_keeps_accum:
  assumes "reaches_copy env ctx cli" and "map_of (ctx_clients ctx) cli = Some c"
  shows "(\<not> cli_kernel c \<and> copy_to_user env \<noteq> 0 \<longrightarrow>
      (\<exists>ctx'. kbase_vinstr_dump env ctx cli = Some (- EFAULT, ctx', None)
         \<and> map_of (ctx_clients ctx') cli = Some (accum_client (after_hw_dump env ctx) c)))
    \<and> (cli_kernel c \<or> copy_to_user env = 0 \<longrightarrow>
      (\<exists>err ctx' c'. kbase_vinstr_dump env ctx cli
           = Some (err, ctx',
               Some (cli_dump_buffer c, cli_accum_buffer (accum_client (after_hw_dump env ctx) c)))
         \<and> map_of (ctx_clients ctx') cli = Some c' \<and> accum_zero c'))"
proof (intro conjI impI)
  assume f: "\<not> cli_kernel c \<and> copy_to_user env \<noteq> 0"
  have "map_of (ctx_clients (accum_clients (after_hw_dump env ctx))) cli
      = Some (accum_client (after_hw_dump env ctx) c)"
    using assms(2) by (simp add: map_of_map_snd)
  then show "\<exists>ctx'. kbase_vinstr_dump env ctx cli = Some (- EFAULT, ctx', None)
         \<and> map_of (ctx_clients ctx') cli = Some (accum_client (after_hw_dump env ctx) c)"
    using dump_copy_fault[OF assms] f by simp
next
  assume ok: "cli_kernel c \<or> copy_to_user env = 0"
  define c3 where "c3 = accum_client (after_hw_dump env ctx) c"
  define ctx3 where "ctx3 = accum_clients (after_hw_dump env ctx)"
  define ctx4 where "ctx4 = (if cli_dump_buffer c = ctx_cpu_va ctx
      then ctx3\<lparr>ctx_dump_mem := cli_accum_buffer c3\<rparr> else ctx3)"
  define ctx5 where "ctx5 = update_client cli memset_accum ctx4"
  have d: "kbase_vinstr_dump env ctx cli =
      Some (fst (reprogram_if_needed env ctx5), snd (reprogram_if_needed env ctx5),
            Some (cli_dump_buffer c, cli_accum_buffer c3))"
    using assms ok by (auto simp: dump_reaches_copy Let_def c3_def ctx3_def ctx4_def ctx5_def)
  have "map_of (ctx_clients ctx4) cli = Some c3"
    using assms(2) by (simp add: ctx4_def ctx3_def c3_def map_of_map_snd)
  then have "map_of (ctx_clients ctx5) cli = Some (memset_accum c3)"
    by (simp add: ctx5_def map_of_update_client)
  from map_of_reprogram_if_needed[OF this, of env]
  obtain c' where c': "map_of (ctx_clients (snd (reprogram_if_needed env ctx5))) cli = Some c'"
    "cli_accum_buffer c' = cli_accum_buffer (memset_accum c3)"
    "cli_dump_size c' = cli_dump_size (memset_accum c3)"
    by blast
  have "accum_zero c'"
    using c'(2,3) memset_accum_zero[of c3] by (simp add: accum_zero_def)
  with d c'(1) show "\<exists>err ctx' c'. kbase_vinstr_dump env ctx cli
           = Some (err, ctx',
               Some (cli_dump_buffer c, cli_accum_buffer (accum_client (after_hw_dump env ctx) c)))
         \<and> map_of (ctx_clients ctx') cli = Some c' \<and> accum_zero c'"
    unfolding c3_def by blast
qed

theorem dump_copy_fault_keeps_accum_witness:
  "(\<exists>ctx'. kbase_vinstr_dump (denv_fault (replicate 320 1)) ctx_user 100 = Some (- EFAULT, ctx', None)
      \<and> map_of (ctx_clients ctx') 100
          = Some (accum_client (after_hw_dump (denv_fault (replicate 320 1)) ctx_user) cli_user))
   \<and> cli_accum_buffer (accum_client (after_hw_dump (denv_fault (replicate 320 1)) ctx_user) cli_user)
        ! 4 = 1
   \<and> (\<exists>err ctx' c'. kbase_vinstr_dump (denv_ok (replicate 320 1)) ctx_user 100
          = Some (err, ctx',
              Some (7, cli_accum_buffer
                         (accum_client (after_hw_dump (denv_ok (replicate 320 1)) ctx_user) cli_user)))
        \<and> map_of (ctx_clients ctx') 100 = Some c' \<and> accum_zero c')"
proof -
  have m: "map_of (ctx_clients ctx_user) 100 = Some cli_user"
    by (simp add: ctx_user_clients)
  have p: "\<not> cli_kernel cli_user" "cli_dump_buffer cli_user = 7" "\<not> cli_pending cli_user"
    "cli_dump_size cli_user = 1280" "cli_accum_buffer cli_user = replicate 320 0"
    by (simp_all add: cli_user_def)
  have e: "copy_to_user (denv_fault (replicate 320 1)) \<noteq> 0"
    "copy_to_user (denv_ok (replicate 320 1)) = 0"
    "hw_dump (denv_fault (replicate 320 1)) = replicate 320 1"
    by (simp_all add: denv_fault_def denv_ok_def)
  from dump_copy_fault_keeps_accum[OF sample_reaches_copy(3) m] p(1) e(1)
  have 1: "\<exists>ctx'. kbase_vinstr_dump (denv_fault (replicate 320 1)) ctx_user 100
        = Some (- EFAULT, ctx', None)
      \<and> map_of (ctx_clients ctx') 100
          = Some (accum_client (after_hw_dump (denv_fault (replicate 320 1)) ctx_user) cli_user)"
    by blast
  from dump_copy_fault_keeps_accum[OF sample_reaches_copy(2) m] p(2) e(2)
  have 2: "\<exists>err ctx' c'. kbase_vinstr_dump (denv_ok (replicate 320 1)) ctx_user 100
          = Some (err, ctx',
              Some (7, cli_accum_buffer
                         (accum_client (after_hw_dump (denv_ok (replicate 320 1)) ctx_user) cli_user)))
        \<and> map_of (ctx_clients ctx') 100 = Some c' \<and> accum_zero c'"
    by simp
  have 3: "cli_accum_buffer
      (accum_client (after_hw_dump (denv_fault (replicate 320 1)) ctx_user) cli_user) ! 4 = 1"
    by (rule first_counter_accumulated) (simp_all add: p e)
  from 1 2 3 show ?thesis by blast
qed

text \<open>
  Claim C7. Over attach, detach, dump and clear the hardware context lives exactly while
  clients are attached, as the lemma \<open>hw_context_iff_clients\<close> says. The claim breaks
  when a context is terminated after a first attach that failed inside
  \<^verbatim>\<open>create_vinstr_kctx\<close>: here \<^verbatim>\<open>kbase_mem_alloc\<close> fails, the error path destroys the
  hardware context and leaves \<^verbatim>\<open>ctx->kctx\<close> pointing at it, where \<^verbatim>\<open>destroy_vinstr_kctx\<close>
  sets the pointer to \<open>NULL\<close>. The attach returns \<open>NULL\<close> and no client is attached;
  \<^verbatim>\<open>kbase_vinstr_term\<close> finds the pointer set and destroys the context a second time:
  contexts created less contexts destroyed is -1.
\<close>

theorem term_after_failed_create_destroys_twice:
  "fst (kbase_vinstr_attach_client (env_no_mem 100) (kbase_vinstr_init dev_v5) True 0 shader_only)
     = NULL
   \<and> ctx_clients (snd (kbase_vinstr_attach_client (env_no_mem 100) (kbase_vinstr_init dev_v5)
         True 0 shader_only)) = []
   \<and> ctx_kctx (snd (kbase_vinstr_attach_client (env_no_mem 100) (kbase_vinstr_init dev_v5)
         True 0 shader_only)) = 4096
   \<and> ctx_trace (snd (kbase_vinstr_attach_client (env_no_mem 100) (kbase_vinstr_init dev_v5)
         True 0 shader_only)) = [DestroyContext, CreateContext]
   \<and> ctx_trace (kbase_vinstr_term (snd (kbase_vinstr_attach_client (env_no_mem 100)
         (kbase_vinstr_init dev_v5) True 0 shader_only)))
       = [DestroyContext, MemFree, Vunmap, HwcntDisable, DestroyContext, CreateContext]
   \<and> live_kctx (ctx_trace (kbase_vinstr_term (snd (kbase_vinstr_attach_client (env_no_mem 100)
         (kbase_vinstr_init dev_v5) True 0 shader_only)))) = - 1
   \<and> \<not> live_ok (ctx_trace (kbase_vinstr_term (snd (kbase_vinstr_attach_client (env_no_mem 100)
         (kbase_vinstr_init dev_v5) True 0 shader_only))))"
proof -
  let ?r = "kbase_vinstr_attach_client (env_no_mem 100) (kbase_vinstr_init dev_v5) True 0 shader_only"
  have no: "\<not> create_ok (env_no_mem 100)"
    by (simp add: create_ok_def env_no_mem_def env_ok_def)
  have f: "fst ?r = NULL"
    by (simp add: attach_fst attach_ok_def no kbase_vinstr_init_def)
  have k: "ctx_kctx (snd ?r) = 4096" "ctx_clients (snd ?r) = []"
    by (simp_all add: attach_unfold env_no_mem_def env_ok_def kbase_vinstr_init_def NULL_def
        ENOMEM_def create_vinstr_kctx_def map_kernel_dump_buffer_def Let_def)
  have t: "ctx_trace (snd ?r) = [DestroyContext, CreateContext]"
    by (simp add: attach_trace no) (simp add: env_no_mem_def env_ok_def kbase_vinstr_init_def NULL_def)
  have t': "ctx_trace (kbase_vinstr_term (snd ?r))
      = [DestroyContext, MemFree, Vunmap, HwcntDisable, DestroyContext, CreateContext]"
    by (simp add: kbase_vinstr_term_trace k t NULL_def)
  have l: "live_kctx (ctx_trace (kbase_vinstr_term (snd ?r))) = - 1"
    unfolding t' by (simp add: live_kctx_def)
  have "\<not> live_ok (ctx_trace (kbase_vinstr_term (snd ?r)))"
    unfolding t' by (simp add: live_kctx_def)
  with f k t t' l show ?thesis by simp
qed

text \<open>
  Claim C10. When \<^verbatim>\<open>kbase_vinstr_dump\<close> fails with \<^verbatim>\<open>-EFAULT\<close> at the copy to user space,
  the flag \<^verbatim>\<open>reprogram\<close>, the pending flag of every client and the superset mask are as
  before the call, and the hardware was asked for the dump only (no disable, no
  enable); the accumulation pass has run over every client of the list, the caller or
  not.
\<close>

theorem dump_copy_fault_no_reprogram:
  assumes "reaches_copy env ctx cli" and "map_of (ctx_clients ctx) cli = Some c"
    and "\<not> cli_kernel c" and "copy_to_user env \<noteq> 0"
  shows "\<exists>ctx'. kbase_vinstr_dump env ctx cli = Some (- EFAULT, ctx', None)
     \<and> ctx_reprogram ctx' = ctx_reprogram ctx
     \<and> pending_flags ctx' = pending_flags ctx
     \<and> ctx_bitmap ctx' = ctx_bitmap ctx
     \<and> ctx_trace ctx' = HwcntWaitForDump # HwcntRequestDump # ctx_trace ctx
     \<and> ctx_clients ctx'
         = map (\<lambda>(p, iter). (p, accum_client (after_hw_dump env ctx) iter)) (ctx_clients ctx)"
  using dump_copy_fault[OF assms]
  by (simp add: pending_flags_def case_prod_beta comp_def)

theorem dump_copy_fault_no_reprogram_witness:
  "\<exists>ctx'. kbase_vinstr_dump (denv_fault (replicate 320 1)) ctx_mixed 200 = Some (- EFAULT, ctx', None)
     \<and> ctx_reprogram ctx'
     \<and> pending_flags ctx' = [(200, True), (100, False)]
     \<and> (\<exists>c. map_of (ctx_clients ctx') 100 = Some c \<and> cli_accum_buffer c ! 4 = 1)"
proof -
  have m: "map_of (ctx_clients ctx_mixed) 200 = Some cli_mixed"
    by (simp add: ctx_mixed_clients)
  have p: "\<not> cli_kernel cli_mixed" "copy_to_user (denv_fault (replicate 320 1)) \<noteq> 0"
    "hw_dump (denv_fault (replicate 320 1)) = replicate 320 1"
    by (simp_all add: cli_mixed_def denv_fault_def denv_ok_def)
  have q: "\<not> cli_pending cli_first" "cli_dump_size cli_first = 1280"
    "cli_accum_buffer cli_first = replicate 320 0" "cli_pending cli_mixed"
    by (simp_all add: cli_first_def cli_mixed_def)
  from dump_copy_fault_no_reprogram[OF sample_reaches_copy(4) m p(1,2)]
  obtain ctx' where c: "kbase_vinstr_dump (denv_fault (replicate 320 1)) ctx_mixed 200
        = Some (- EFAULT, ctx', None)"
    "ctx_reprogram ctx' = ctx_reprogram ctx_mixed" "pending_flags ctx' = pending_flags ctx_mixed"
    "ctx_clients ctx' = map (\<lambda>(p, iter).
        (p, accum_client (after_hw_dump (denv_fault (replicate 320 1)) ctx_mixed) iter))
        (ctx_clients ctx_mixed)"
    by blast
  have 1: "cli_accum_buffer
      (accum_client (after_hw_dump (denv_fault (replicate 320 1)) ctx_mixed) cli_first) ! 4 = 1"
    by (rule first_counter_accumulated) (simp_all add: p q)
  have "map_of (ctx_clients ctx') 100
      = Some (accum_client (after_hw_dump (denv_fault (replicate 320 1)) ctx_mixed) cli_first)"
    by (simp add: c(4) ctx_mixed_clients)
  with 1 c(1,2,3) show ?thesis
    by (simp add: ctx_mixed_fields pending_flags_def ctx_mixed_clients q)
qed

end
